theory Spec2Isabelle
  imports Main "HOL-Library.Word" "HOL-Library.Log_Nat"
begin

section \<open>JavaScript numbers\<close>

text \<open>
  The image service computes with JavaScript numbers, which are IEEE 754 binary64 values.
  A finite number is kept as the rational it denotes; every arithmetic result is rounded to
  the nearest binary64 value, ties to the even significand (\<open>fl\<close>). Infinities and NaN are
  separate values, so a division by zero is visible in the model. The sign of zero is not
  kept: the service never produces a negative number.
\<close>

datatype jsnum = Num rat | PosInf | NegInf | NaN

definition pow2 :: "int \<Rightarrow> rat" where
  "pow2 e = (if 0 \<le> e then 2 ^ nat e else 1 / 2 ^ nat (- e))"

text \<open>The binary exponent of a positive rational: the \<open>e\<close> with \<open>2^e \<le> x < 2^(e+1)\<close>.\<close>

definition binade :: "rat \<Rightarrow> int" where
  "binade x = (if 1 \<le> x then bitlen \<lfloor>x\<rfloor> - 1 else - bitlen (\<lceil>1 / x\<rceil> - 1))"

definition roundHalfEven :: "rat \<Rightarrow> int" where
  "roundHalfEven y =
     (let f = \<lfloor>y\<rfloor>; r = y - of_int f
      in if r < 1 / 2 then f
         else if 1 / 2 < r then f + 1
         else if even f then f else f + 1)"

text \<open>
  Rounding to binary64: 53 significant bits, the least exponent of a normal number is
  \<open>-1022\<close> (below it the spacing stays \<open>2^-1074\<close>), and a result of magnitude \<open>2^1024\<close>
  or more is an infinity: the exponent is 1024 or more, or it is 1023 and the rounded
  significand has reached \<open>2^53\<close>.
\<close>

definition fl :: "rat \<Rightarrow> jsnum" where
  "fl x =
     (if x = 0 then Num 0
      else let a = \<bar>x\<bar>;
               e = max (binade a) (- 1022);
               ulp = pow2 (e - 52);
               m = roundHalfEven (a / ulp);
               y = of_int m * ulp
           in if 1024 \<le> e \<or> (e = 1023 \<and> m = 2 ^ 53)
              then (if 0 < x then PosInf else NegInf)
              else Num (if 0 < x then y else - y))"

fun js_add :: "jsnum \<Rightarrow> jsnum \<Rightarrow> jsnum" where
  "js_add (Num a) (Num b) = fl (a + b)"
| "js_add NaN _ = NaN"
| "js_add _ NaN = NaN"
| "js_add PosInf NegInf = NaN"
| "js_add NegInf PosInf = NaN"
| "js_add PosInf _ = PosInf"
| "js_add NegInf _ = NegInf"
| "js_add (Num a) PosInf = PosInf"
| "js_add (Num a) NegInf = NegInf"

fun js_mul :: "jsnum \<Rightarrow> jsnum \<Rightarrow> jsnum" where
  "js_mul (Num a) (Num b) = fl (a * b)"
| "js_mul NaN _ = NaN"
| "js_mul _ NaN = NaN"
| "js_mul (Num a) PosInf = (if a = 0 then NaN else if 0 < a then PosInf else NegInf)"
| "js_mul (Num a) NegInf = (if a = 0 then NaN else if 0 < a then NegInf else PosInf)"
| "js_mul PosInf (Num b) = (if b = 0 then NaN else if 0 < b then PosInf else NegInf)"
| "js_mul NegInf (Num b) = (if b = 0 then NaN else if 0 < b then NegInf else PosInf)"
| "js_mul PosInf PosInf = PosInf"
| "js_mul NegInf NegInf = PosInf"
| "js_mul PosInf NegInf = NegInf"
| "js_mul NegInf PosInf = NegInf"

fun js_div :: "jsnum \<Rightarrow> jsnum \<Rightarrow> jsnum" where
  "js_div (Num a) (Num b) =
     (if b = 0 then (if a = 0 then NaN else if 0 < a then PosInf else NegInf)
      else fl (a / b))"
| "js_div NaN _ = NaN"
| "js_div _ NaN = NaN"
| "js_div (Num a) PosInf = Num 0"
| "js_div (Num a) NegInf = Num 0"
| "js_div PosInf (Num b) = (if 0 \<le> b then PosInf else NegInf)"
| "js_div NegInf (Num b) = (if 0 \<le> b then NegInf else PosInf)"
| "js_div PosInf _ = NaN"
| "js_div NegInf _ = NaN"

text \<open>\<open>Math.round\<close>: the nearest integer, a tie going up; infinities and NaN are kept.\<close>

fun Math_round :: "jsnum \<Rightarrow> jsnum" where
  "Math_round (Num a) = Num (of_int \<lfloor>a + 1 / 2\<rfloor>)"
| "Math_round v = v"

text \<open>An \<open>unsigned long\<close> of the DOM read as a number: exact, being below \<open>2^53\<close>.\<close>

definition ulong_num :: "32 word \<Rightarrow> jsnum" where
  "ulong_num w = Num (of_int (uint w))"


section \<open>Data model\<close>

text \<open>
  A \<open>File\<close> and a \<open>Blob\<close> are their bytes. The fields of \<open>UploadedImage\<close> are those of
  the interface; \<open>id\<close>, \<open>file\<close>, \<open>width\<close> and \<open>height\<close> carry the prefix \<open>image_\<close>,
  since \<open>id\<close> is a HOL constant, \<open>file\<close> is a keyword, and \<open>StitchResult\<close> has fields
  \<open>width\<close> and \<open>height\<close> of its own.
\<close>

type_synonym File = "8 word list"
type_synonym Blob = "8 word list"

record UploadedImage =
  image_id :: string
  image_file :: File
  previewUrl :: string
  image_width :: jsnum
  image_height :: jsnum

record StitchResult =
  blob :: Blob
  url :: string
  width :: jsnum
  height :: jsnum

text \<open>
  A loaded \<open>HTMLImageElement\<close>: its natural size (\<open>unsigned long\<close> in the DOM) and the
  decoded pixels.
\<close>

record HTMLImageElement =
  naturalWidth :: "32 word"
  naturalHeight :: "32 word"
  bitmap :: "8 word list"

text \<open>The canvas with its 2D context: the size, the fill style and what was painted, in order.\<close>

datatype draw_op =
    FillRect string jsnum jsnum jsnum jsnum
  | DrawImage HTMLImageElement jsnum jsnum jsnum jsnum

record HTMLCanvasElement =
  canvas_width :: "32 word"
  canvas_height :: "32 word"
  fillStyle :: string
  painted :: "draw_op list"

text \<open>Values of type \<open>any\<close>, as the EXIF library takes and returns them.\<close>

datatype jsval =
    JSUndefined
  | JSNull
  | JSBoolean bool
  | JSNumber jsnum
  | JSString string
  | JSObject "(string \<times> jsval) list"

fun typeof :: "jsval \<Rightarrow> string" where
  "typeof JSUndefined = ''undefined''"
| "typeof JSNull = ''object''"
| "typeof (JSBoolean _) = ''boolean''"
| "typeof (JSNumber _) = ''number''"
| "typeof (JSString _) = ''string''"
| "typeof (JSObject _) = ''object''"

text \<open>
  The global \<open>piexif\<close> object is not part of the repository (it is loaded by the page), so
  its three functions are parameters. A call returns a value (\<open>Inr\<close>) or throws one
  (\<open>Inl\<close>).
\<close>

record piexif =
  piexif_load :: "string \<Rightarrow> jsval + jsval"
  piexif_dump :: "jsval \<Rightarrow> jsval + jsval"
  piexif_insert :: "jsval \<Rightarrow> string \<Rightarrow> jsval + jsval"

text \<open>
  What the service asks of the browser: decoding a file into an image element (\<open>None\<close> is
  the \<open>error\<close> event), the conversion of a number assigned to \<open>canvas.width\<close> or
  \<open>canvas.height\<close>, whether \<open>getContext('2d')\<close> gives a context for a canvas of that size,
  the encoder behind \<open>toDataURL\<close>, \<open>FileReader.readAsDataURL\<close> (\<open>None\<close> is its \<open>error\<close>
  event), \<open>window.piexif\<close> when the library is loaded, \<open>fetch\<close> followed by \<open>blob()\<close>
  (\<open>None\<close> is a rejection), and \<open>URL.createObjectURL\<close>.
\<close>

record browser =
  decodeImage :: "File \<Rightarrow> HTMLImageElement option"
  toCanvasSize :: "jsnum \<Rightarrow> 32 word"
  getContext2d :: "32 word \<Rightarrow> 32 word \<Rightarrow> bool"
  toDataURL :: "HTMLCanvasElement \<Rightarrow> string \<Rightarrow> jsnum \<Rightarrow> string"
  readAsDataURL :: "File \<Rightarrow> string option"
  window_piexif :: "piexif option"
  fetchBlob :: "jsval \<Rightarrow> Blob option"
  createObjectURL :: "Blob \<Rightarrow> string"

text \<open>
  What a promise of the service rejects with: an \<open>Error\<close> with its message, the \<open>error\<close>
  event of an image or of a file reader, or the \<open>TypeError\<close> of a failed \<open>fetch\<close>.
\<close>

datatype error =
    Error string
  | ErrorEvent
  | FetchTypeError

section \<open>The image service\<close>

text \<open>
  The object URLs that \<open>loadImage\<close> creates and the final loop revokes, and the lines
  written to the console, have no part in the result and are left out.
\<close>

definition loadImage :: "browser \<Rightarrow> File \<Rightarrow> error + HTMLImageElement" where
  "loadImage env f =
     (case decodeImage env f of None \<Rightarrow> Inl ErrorEvent | Some i \<Rightarrow> Inr i)"

definition readFileAsDataURL :: "browser \<Rightarrow> File \<Rightarrow> error + string" where
  "readFileAsDataURL env f =
     (case readAsDataURL env f of None \<Rightarrow> Inl ErrorEvent | Some s \<Rightarrow> Inr s)"

text \<open>\<open>Promise.all\<close>: the list of all values, or a rejection when one promise rejects.\<close>

fun Promise_all :: "(error + 'a) list \<Rightarrow> error + 'a list" where
  "Promise_all [] = Inr []"
| "Promise_all (Inl e # ps) = Inl e"
| "Promise_all (Inr v # ps) =
     (case Promise_all ps of Inl e \<Rightarrow> Inl e | Inr vs \<Rightarrow> Inr (v # vs))"

record imageDrawDatum =
  img :: HTMLImageElement
  scaledHeight :: jsnum
  scaleFactor :: jsnum

text \<open>Step 2: the callback of \<open>loadedImages.map\<close>, and the \<open>totalHeight\<close> it accumulates.\<close>

definition drawDatum :: "jsnum \<Rightarrow> HTMLImageElement \<Rightarrow> imageDrawDatum" where
  "drawDatum targetWidth i =
     (let sf = js_div targetWidth (ulong_num (naturalWidth i));
          sh = js_mul (ulong_num (naturalHeight i)) sf
      in \<lparr>img = i, scaledHeight = sh, scaleFactor = sf\<rparr>)"

definition imageDrawData :: "jsnum \<Rightarrow> HTMLImageElement list \<Rightarrow> imageDrawDatum list" where
  "imageDrawData targetWidth loadedImages = map (drawDatum targetWidth) loadedImages"

definition totalHeightOf :: "imageDrawDatum list \<Rightarrow> jsnum" where
  "totalHeightOf ds = foldl (\<lambda>total d. js_add total (scaledHeight d)) (Num 0) ds"

text \<open>The context operations used: they append to what the canvas has painted.\<close>

definition fillRect ::
  "HTMLCanvasElement \<Rightarrow> jsnum \<Rightarrow> jsnum \<Rightarrow> jsnum \<Rightarrow> jsnum \<Rightarrow> HTMLCanvasElement" where
  "fillRect c x y w h = c\<lparr>painted := painted c @ [FillRect (fillStyle c) x y w h]\<rparr>"

definition drawImage ::
  "HTMLCanvasElement \<Rightarrow> HTMLImageElement \<Rightarrow> jsnum \<Rightarrow> jsnum \<Rightarrow> jsnum \<Rightarrow> jsnum
     \<Rightarrow> HTMLCanvasElement" where
  "drawImage c i x y w h = c\<lparr>painted := painted c @ [DrawImage i x y w h]\<rparr>"

text \<open>Step 4: the \<open>forEach\<close> loop, with the canvas and \<open>currentY\<close> as its state.\<close>

fun drawImages ::
  "jsnum \<Rightarrow> HTMLCanvasElement \<Rightarrow> jsnum \<Rightarrow> imageDrawDatum list \<Rightarrow> HTMLCanvasElement" where
  "drawImages targetWidth c currentY [] = c"
| "drawImages targetWidth c currentY (d # ds) =
     drawImages targetWidth
       (drawImage c (img d) (Num 0) currentY targetWidth (scaledHeight d))
       (js_add currentY (scaledHeight d)) ds"

text \<open>Steps 3 and 4: the canvas is created, filled white and drawn on.\<close>

definition paintCanvas ::
  "browser \<Rightarrow> jsnum \<Rightarrow> jsnum \<Rightarrow> imageDrawDatum list \<Rightarrow> error + HTMLCanvasElement" where
  "paintCanvas env targetWidth totalHeight ds =
     (let canvas = \<lparr>canvas_width = toCanvasSize env targetWidth,
                     canvas_height = toCanvasSize env totalHeight,
                     fillStyle = ''#000000'', painted = []\<rparr>
      in if \<not> getContext2d env (canvas_width canvas) (canvas_height canvas)
         then Inl (Error ''Could not get canvas context'')
         else let white = canvas\<lparr>fillStyle := ''#FFFFFF''\<rparr>;
                  filled = fillRect white (Num 0) (Num 0)
                             (ulong_num (canvas_width white)) (ulong_num (canvas_height white))
              in Inr (drawImages targetWidth filled (Num 0) ds))"

text \<open>
  Step 6: the EXIF of the first file is read and put into the stitched data URL. Both
  \<open>try\<close> blocks catch every thrown value and keep \<open>finalDataUrl = stitchedDataUrl\<close>.
\<close>

definition handleExif :: "browser \<Rightarrow> string \<Rightarrow> File \<Rightarrow> jsval" where
  "handleExif env stitchedDataUrl firstFile =
     (case readFileAsDataURL env firstFile of
        Inl err \<Rightarrow> JSString stitchedDataUrl
      | Inr firstImageDataUrl \<Rightarrow>
          (case window_piexif env of
             None \<Rightarrow> JSString stitchedDataUrl
           | Some px \<Rightarrow>
               (case piexif_load px firstImageDataUrl of
                  Inl exifError \<Rightarrow> JSString stitchedDataUrl
                | Inr exifObj \<Rightarrow>
                    if typeof exifObj = ''object''
                    then (case piexif_dump px exifObj of
                            Inl exifError \<Rightarrow> JSString stitchedDataUrl
                          | Inr exifBytes \<Rightarrow>
                              (case piexif_insert px exifBytes stitchedDataUrl of
                                 Inl exifError \<Rightarrow> JSString stitchedDataUrl
                               | Inr inserted \<Rightarrow> inserted))
                    else JSString stitchedDataUrl)))"

text \<open>Steps 1 to 4 of \<open>stitchImages\<close>: the target width, the total height and the canvas.\<close>

definition stitchCanvas ::
  "browser \<Rightarrow> UploadedImage list \<Rightarrow> error + jsnum \<times> jsnum \<times> HTMLCanvasElement" where
  "stitchCanvas env uploadedImages =
     (if length uploadedImages = 0 then Inl (Error ''No images to stitch'')
      else case Promise_all (map (\<lambda>u. loadImage env (image_file u)) uploadedImages) of
             Inl e \<Rightarrow> Inl e
           | Inr loadedImages \<Rightarrow>
               (let targetWidth = ulong_num (naturalWidth (loadedImages ! 0));
                    ds = imageDrawData targetWidth loadedImages;
                    totalHeight = totalHeightOf ds
                in case paintCanvas env targetWidth totalHeight ds of
                     Inl e \<Rightarrow> Inl e
                   | Inr canvas \<Rightarrow> Inr (targetWidth, totalHeight, canvas)))"

text \<open>The whole function: steps 5 to 7 follow, and the result is built.\<close>

definition stitchImages :: "browser \<Rightarrow> UploadedImage list \<Rightarrow> error + StitchResult" where
  "stitchImages env uploadedImages =
     (case stitchCanvas env uploadedImages of
        Inl e \<Rightarrow> Inl e
      | Inr (targetWidth, totalHeight, canvas) \<Rightarrow>
          (let stitchedDataUrl = toDataURL env canvas ''image/jpeg'' (Num 1);
               finalDataUrl =
                 handleExif env stitchedDataUrl (image_file (uploadedImages ! 0))
           in case fetchBlob env finalDataUrl of
                None \<Rightarrow> Inl FetchTypeError
              | Some b \<Rightarrow>
                  Inr \<lparr>blob = b, url = createObjectURL env b,
                       width = targetWidth,
                       height = Math_round totalHeight\<rparr>))"

text \<open>
  \<open>handleFilesSelected\<close> of the application builds each list element with a random id, a
  preview URL and the sizes \<open>0\<close>.
\<close>

definition newImage :: "string \<Rightarrow> string \<Rightarrow> File \<Rightarrow> UploadedImage" where
  "newImage i u f =
     \<lparr>image_id = i, image_file = f, previewUrl = u, image_width = Num 0, image_height = Num 0\<rparr>"

section \<open>A concrete browser\<close>

text \<open>
  A small browser to run the service on. Its image format is four bytes of header, the
  width and the height as big-endian 16-bit numbers, followed by the pixels; a shorter
  file does not decode. A canvas size is the number truncated, a context is always
  given, and the encoder writes one letter for each painting operation.
\<close>

definition demo_decode :: "File \<Rightarrow> HTMLImageElement option" where
  "demo_decode f =
     (case f of
        w1 # w0 # h1 # h0 # px \<Rightarrow>
          Some \<lparr>naturalWidth = 256 * ucast w1 + ucast w0,
                naturalHeight = 256 * ucast h1 + ucast h0, bitmap = px\<rparr>
      | _ \<Rightarrow> None)"

definition demo_size :: "jsnum \<Rightarrow> 32 word" where
  "demo_size v = (case v of Num a \<Rightarrow> word_of_int \<lfloor>a\<rfloor> | _ \<Rightarrow> 0)"

definition demo_encode :: "HTMLCanvasElement \<Rightarrow> string \<Rightarrow> jsnum \<Rightarrow> string" where
  "demo_encode c t q = ''data:'' @ t @ '';'' @ replicate (length (painted c)) CHR ''p''"

definition demo_fetch :: "jsval \<Rightarrow> Blob option" where
  "demo_fetch v = (case v of JSString s \<Rightarrow> Some (map (\<lambda>c. of_nat (of_char c)) s) | _ \<Rightarrow> None)"

text \<open>
  An EXIF library in the manner of piexifjs: \<open>load\<close> gives the tag sets of the file, all of
  them empty here (a file without EXIF), \<open>dump\<close> serialises an object and throws on
  anything else, \<open>insert\<close> puts the serialised segment into the data URL.
\<close>

definition emptyExif :: jsval where
  "emptyExif =
     JSObject [(''0th'', JSObject []), (''Exif'', JSObject []), (''GPS'', JSObject []),
               (''Interop'', JSObject []), (''1st'', JSObject []), (''thumbnail'', JSNull)]"

definition demo_piexif :: piexif where
  "demo_piexif =
     \<lparr>piexif_load = (\<lambda>d. Inr emptyExif),
      piexif_dump = (\<lambda>v. case v of JSObject _ \<Rightarrow> Inr (JSString ''Exif'')
                                  | _ \<Rightarrow> Inl (JSString ''TypeError'')),
      piexif_insert = (\<lambda>b s. case b of JSString e \<Rightarrow> Inr (JSString (s @ '';'' @ e))
                                      | _ \<Rightarrow> Inl (JSString ''TypeError''))\<rparr>"

definition demo_browser :: browser where
  "demo_browser =
     \<lparr>decodeImage = demo_decode,
      toCanvasSize = demo_size,
      getContext2d = (\<lambda>w h. True),
      toDataURL = demo_encode,
      readAsDataURL = (\<lambda>f. Some ''data:image/jpeg''),
      window_piexif = None,
      fetchBlob = demo_fetch,
      createObjectURL = (\<lambda>b. ''blob:1'')\<rparr>"

text \<open>
  Files of this format: an image of 3 by 1, one of 22 by 99, one of width 0 and one of
  60000 by 60000; and the same browser with the EXIF library loaded.
\<close>

definition demo_small :: UploadedImage where
  "demo_small = newImage ''k3v9x1q0a'' ''blob:a'' [0, 3, 0, 1]"

definition demo_tall :: UploadedImage where
  "demo_tall = newImage ''p7w2m5z1c'' ''blob:b'' [0, 22, 0, 99]"

definition demo_zero_width :: UploadedImage where
  "demo_zero_width = newImage ''z0z0z0z0z'' ''blob:c'' [0, 0, 0, 5]"

definition demo_huge :: UploadedImage where
  "demo_huge = newImage ''h1h2h3h4h'' ''blob:d'' [234, 96, 234, 96]"

definition demo_browser_exif :: browser where
  "demo_browser_exif = demo_browser\<lparr>window_piexif := Some demo_piexif\<rparr>"

definition demo_browser_throwing :: browser where
  "demo_browser_throwing =
     demo_browser\<lparr>window_piexif :=
       Some (demo_piexif\<lparr>piexif_load := (\<lambda>d. Inl (JSString ''invalid file data''))\<rparr>),
       createObjectURL := (\<lambda>b. ''blob:2'')\<rparr>"

text \<open>
  A browser whose \<open>fetch\<close> rejects what is not a data URL, with an EXIF library whose
  \<open>insert\<close> returns, without throwing, a string that is no URL.
\<close>

definition demo_browser_bad_insert :: browser where
  "demo_browser_bad_insert =
     demo_browser\<lparr>window_piexif :=
       Some (demo_piexif\<lparr>piexif_insert := (\<lambda>b s. Inr (JSString ''http://[''))\<rparr>),
       fetchBlob := (\<lambda>v. case v of
                              JSString s \<Rightarrow> if take 5 s = ''data:'' then demo_fetch v else None
                            | _ \<Rightarrow> None)\<rparr>"

section \<open>Notions of the specification\<close>

text \<open>
  The height as the specification words it: the exact scaled height of an image is its
  intrinsic height times the target width divided by its intrinsic width; the heights are
  added exactly, the target width being the width of the first image, and the sum is
  rounded once.
\<close>

definition exactScaled :: "32 word \<Rightarrow> HTMLImageElement \<Rightarrow> rat" where
  "exactScaled targetWidth i =
     of_int (uint (naturalHeight i)) * of_int (uint targetWidth) / of_int (uint (naturalWidth i))"

definition specTotal :: "HTMLImageElement list \<Rightarrow> rat" where
  "specTotal imgs = (\<Sum>i\<leftarrow>imgs. exactScaled (naturalWidth (imgs ! 0)) i)"

definition specHeight :: "HTMLImageElement list \<Rightarrow> int" where
  "specHeight imgs = round (specTotal imgs)"

text \<open>
  A failure inside the EXIF step: the first file cannot be read, the library is not
  loaded, \<open>load\<close> throws, or \<open>dump\<close> or \<open>insert\<close> throws when it is called.
\<close>

definition exifFailure :: "browser \<Rightarrow> string \<Rightarrow> File \<Rightarrow> bool" where
  "exifFailure env stitchedDataUrl firstFile =
     (case readAsDataURL env firstFile of
        None \<Rightarrow> True
      | Some d \<Rightarrow>
          (case window_piexif env of
             None \<Rightarrow> True
           | Some px \<Rightarrow>
               (case piexif_load px d of
                  Inl thrown \<Rightarrow> True
                | Inr obj \<Rightarrow>
                    typeof obj = ''object'' \<and>
                    (case piexif_dump px obj of
                       Inl thrown \<Rightarrow> True
                     | Inr bytes \<Rightarrow> isl (piexif_insert px bytes stitchedDataUrl)))))"

section \<open>Loading and the shape of a successful run\<close>

lemma Promise_all_map_Inr: "Promise_all (map Inr vs) = Inr vs"
  by (induction vs) auto

lemma Promise_all_InrD: "Promise_all ps = Inr vs \<Longrightarrow> ps = map Inr vs"
proof (induction ps arbitrary: vs)
  case Nil
  then show ?case by auto
next
  case (Cons p ps)
  show ?case
  proof (cases p)
    case (Inl e)
    with Cons.prems show ?thesis by simp
  next
    case (Inr v)
    with Cons.prems obtain ws where "Promise_all ps = Inr ws" and "vs = v # ws"
      by (auto split: sum.splits)
    with Cons.IH Inr show ?thesis by simp
  qed
qed

lemma Promise_all_Inr_iff: "Promise_all ps = Inr vs \<longleftrightarrow> ps = map Inr vs"
  using Promise_all_InrD Promise_all_map_Inr by blast

lemma loadImage_Inr_iff: "loadImage env f = Inr i \<longleftrightarrow> decodeImage env f = Some i"
  by (simp add: loadImage_def split: option.splits)

lemma loaded_iff:
  "Promise_all (map (\<lambda>u. loadImage env (image_file u)) ups) = Inr imgs
     \<longleftrightarrow> map (\<lambda>u. decodeImage env (image_file u)) ups = map Some imgs"
proof -
  have "map (\<lambda>u. loadImage env (image_file u)) ups = map Inr imgs
          \<longleftrightarrow> map (\<lambda>u. decodeImage env (image_file u)) ups = map Some imgs"
  proof (induction ups arbitrary: imgs)
    case Nil
    show ?case by auto
  next
    case (Cons u ups)
    show ?case using Cons.IH by (cases imgs) (auto simp: loadImage_Inr_iff)
  qed
  then show ?thesis by (simp add: Promise_all_Inr_iff)
qed

lemma stitchCanvas_InrD:
  assumes "stitchCanvas env ups = Inr (tw, th, c)"
  shows "ups \<noteq> [] \<and>
         (\<exists>imgs. map (\<lambda>u. decodeImage env (image_file u)) ups = map Some imgs \<and>
                 tw = ulong_num (naturalWidth (imgs ! 0)) \<and>
                 th = totalHeightOf (imageDrawData tw imgs) \<and>
                 paintCanvas env tw th (imageDrawData tw imgs) = Inr c)"
proof -
  from assms have ne: "ups \<noteq> []"
    by (auto simp: stitchCanvas_def)
  from assms ne obtain imgs where
    l: "Promise_all (map (\<lambda>u. loadImage env (image_file u)) ups) = Inr imgs"
    by (auto simp: stitchCanvas_def split: sum.splits)
  from assms ne l have "tw = ulong_num (naturalWidth (imgs ! 0))"
    and "th = totalHeightOf (imageDrawData tw imgs)"
    and "paintCanvas env tw th (imageDrawData tw imgs) = Inr c"
    by (auto simp: stitchCanvas_def Let_def split: sum.splits)
  with ne l show ?thesis
    by (auto simp: loaded_iff)
qed

lemma stitchImages_InrD:
  assumes "stitchImages env ups = Inr r"
  shows "\<exists>tw th c. stitchCanvas env ups = Inr (tw, th, c) \<and> width r = tw \<and>
           height r = Math_round th \<and>
           fetchBlob env (handleExif env (toDataURL env c ''image/jpeg'' (Num 1))
                            (image_file (ups ! 0))) = Some (blob r) \<and>
           url r = createObjectURL env (blob r)"
  using assms
  by (auto simp: stitchImages_def Let_def split: sum.splits option.splits)

lemma stitchCanvas_cong_files:
  assumes "map image_file ups = map image_file ups'"
  shows "stitchCanvas env ups = stitchCanvas env ups'"
proof -
  from assms have len: "length ups = length ups'"
    by (rule map_eq_imp_length_eq)
  have "map (\<lambda>u. loadImage env (image_file u)) ups
          = map (loadImage env) (map image_file ups)"
    by simp
  also have "\<dots> = map (loadImage env) (map image_file ups')"
    by (simp only: assms)
  also have "\<dots> = map (\<lambda>u. loadImage env (image_file u)) ups'"
    by simp
  finally show ?thesis using len
    by (simp add: stitchCanvas_def)
qed

section \<open>The canvas and the EXIF step\<close>

lemma drawImages_size:
  "canvas_width (drawImages tw c y ds) = canvas_width c \<and>
   canvas_height (drawImages tw c y ds) = canvas_height c \<and>
   fillStyle (drawImages tw c y ds) = fillStyle c"
  by (induction ds arbitrary: c y) (simp_all add: drawImage_def)

lemma drawImages_painted:
  "painted (drawImages tw c y ds)
     = painted c @
       map (\<lambda>k. DrawImage (img (ds ! k)) (Num 0)
                   (foldl js_add y (map scaledHeight (take k ds))) tw (scaledHeight (ds ! k)))
         [0..<length ds]"
proof (induction ds arbitrary: c y)
  case Nil
  show ?case by simp
next
  case (Cons d ds)
  have "painted (drawImages tw c y (d # ds))
          = painted (drawImage c (img d) (Num 0) y tw (scaledHeight d)) @
            map (\<lambda>k. DrawImage (img (ds ! k)) (Num 0)
                        (foldl js_add (js_add y (scaledHeight d)) (map scaledHeight (take k ds)))
                        tw (scaledHeight (ds ! k)))
              [0..<length ds]"
    by (simp add: Cons.IH)
  also have "\<dots> = painted c @
            DrawImage (img d) (Num 0) y tw (scaledHeight d) #
            map (\<lambda>k. DrawImage (img ((d # ds) ! Suc k)) (Num 0)
                        (foldl js_add y (map scaledHeight (take (Suc k) (d # ds))))
                        tw (scaledHeight ((d # ds) ! Suc k)))
              [0..<length ds]"
    by (simp add: drawImage_def)
  also have "\<dots> = painted c @
            map (\<lambda>k. DrawImage (img ((d # ds) ! k)) (Num 0)
                        (foldl js_add y (map scaledHeight (take k (d # ds))))
                        tw (scaledHeight ((d # ds) ! k)))
              [0..<length (d # ds)]"
    by (simp add: map_upt_Suc del: upt_Suc)
  finally show ?case .
qed

lemma paintCanvas_cases:
  "paintCanvas env tw th ds =
     (if getContext2d env (toCanvasSize env tw) (toCanvasSize env th)
      then Inr (drawImages tw
                  \<lparr>canvas_width = toCanvasSize env tw, canvas_height = toCanvasSize env th,
                   fillStyle = ''#FFFFFF'',
                   painted = [FillRect ''#FFFFFF'' (Num 0) (Num 0)
                                (ulong_num (toCanvasSize env tw))
                                (ulong_num (toCanvasSize env th))]\<rparr>
                  (Num 0) ds)
      else Inl (Error ''Could not get canvas context''))"
  by (simp add: paintCanvas_def fillRect_def Let_def)

lemma handleExif_failure:
  "exifFailure env s f \<Longrightarrow> handleExif env s f = JSString s"
  by (auto simp: handleExif_def exifFailure_def readFileAsDataURL_def
           split: option.splits sum.splits)

lemma handleExif_changed:
  assumes "handleExif env s f \<noteq> JSString s"
  shows "\<exists>d px obj bytes v.
           readAsDataURL env f = Some d \<and> window_piexif env = Some px \<and>
           piexif_load px d = Inr obj \<and> typeof obj = ''object'' \<and>
           piexif_dump px obj = Inr bytes \<and> piexif_insert px bytes s = Inr v \<and>
           handleExif env s f = v"
  using assms
  by (auto simp: handleExif_def readFileAsDataURL_def split: option.splits sum.splits if_splits)

lemma handleExif_no_library:
  "window_piexif env = None \<Longrightarrow> handleExif env s f = JSString s"
  by (simp add: handleExif_def split: option.splits sum.splits)

lemma stitchCanvas_same_browser:
  assumes "decodeImage e1 = decodeImage e2" and "toCanvasSize e1 = toCanvasSize e2"
    and "getContext2d e1 = getContext2d e2"
  shows "stitchCanvas e1 ups = stitchCanvas e2 ups"
proof -
  have l: "loadImage e1 = loadImage e2"
    by (intro ext) (simp add: loadImage_def assms)
  have p: "paintCanvas e1 = paintCanvas e2"
    by (intro ext) (simp add: paintCanvas_def assms)
  show ?thesis
    unfolding stitchCanvas_def l p by (rule refl)
qed

section \<open>Properties of the arithmetic\<close>

text \<open>
  The rounding is what binary64 asks for: \<open>binade\<close> is the binary exponent, the result of
  \<open>fl\<close> lies within half a unit in the last place of its argument, and the integers below
  \<open>2^53\<close> are kept exactly. So sums of heights that are not scaled are exact, and the
  total height of scaled images carries a relative error of \<open>2^-53\<close> for each operation.
\<close>

subsection \<open>Finite results and the nearest value\<close>

lemma binade_below:
  assumes "0 < a" and "a < 2 ^ n"
  shows "binade a \<le> int n - 1"
proof (cases "1 \<le> a")
  case True
  have "\<lfloor>a\<rfloor> < 2 ^ n"
    using assms(2) by (simp add: floor_less_iff)
  then have "bitlen \<lfloor>a\<rfloor> \<le> int n"
    by (simp add: bitlen_le_iff_power)
  with True show ?thesis
    by (simp add: binade_def)
next
  case False
  have "0 < \<lceil>1 / a\<rceil> - 1"
    using False assms(1) by (simp add: less_ceiling_iff)
  then have "0 < bitlen (\<lceil>1 / a\<rceil> - 1)"
    using bitlen_eq_zero_iff bitlen_nonneg
    by (metis less_le not_less)
  with False show ?thesis
    by (simp add: binade_def)
qed

lemma fl_finite:
  assumes "\<bar>x\<bar> < 2 ^ 1023"
  shows "\<exists>q. fl x = Num q"
proof (cases "x = 0")
  case True
  then show ?thesis by (simp add: fl_def)
next
  case False
  then have "0 < \<bar>x\<bar>" by simp
  from binade_below [OF this assms] have b: "binade \<bar>x\<bar> \<le> 1022"
    by simp
  define e where "e = max (binade \<bar>x\<bar>) (- 1022)"
  from b have "e \<le> 1022" by (simp add: e_def)
  then have "\<not> (1024 \<le> e \<or> e = 1023 \<and> roundHalfEven (\<bar>x\<bar> / pow2 (e - 52)) = 2 ^ 53)"
    by linarith
  with False show ?thesis
    unfolding fl_def Let_def e_def [symmetric] by (simp only: if_False) blast
qed

lemma ulong_bounds: "0 \<le> (of_int (uint (w :: 32 word)) :: rat) \<and> (of_int (uint w) :: rat) < 2 ^ 32"
proof -
  have "uint w < 2 ^ 32"
    using uint_bounded [of w] by simp
  then have "(of_int (uint w) :: rat) < of_int (2 ^ 32)"
    by (simp only: of_int_less_iff)
  moreover have "(of_int 0 :: rat) \<le> of_int (uint w)"
    by (simp only: of_int_le_iff uint_ge_0)
  ultimately show ?thesis by (simp only: of_int_0 of_int_power of_int_numeral)
qed

lemma roundHalfEven_of_int: "roundHalfEven (of_int z) = z"
  by (simp add: roundHalfEven_def)

lemma roundHalfEven_near: "\<bar>of_int (roundHalfEven y) - y\<bar> \<le> 1 / 2"
proof -
  have "of_int \<lfloor>y\<rfloor> \<le> y" "y < of_int \<lfloor>y\<rfloor> + 1"
    by linarith+
  then show ?thesis
    by (auto simp: roundHalfEven_def Let_def)
qed

lemma binade_bounds:
  assumes "0 < x"
  shows "pow2 (binade x) \<le> x \<and> x < pow2 (binade x + 1)"
proof (cases "1 \<le> x")
  case True
  then have pos: "0 < \<lfloor>x\<rfloor>" by simp
  from bitlen_bounds [OF pos]
  have lo: "2 ^ nat (bitlen \<lfloor>x\<rfloor> - 1) \<le> \<lfloor>x\<rfloor>" and hi: "\<lfloor>x\<rfloor> < 2 ^ nat (bitlen \<lfloor>x\<rfloor>)"
    by simp_all
  from pos have b: "1 \<le> bitlen \<lfloor>x\<rfloor>"
    using bitlen_eq_zero_iff [of "\<lfloor>x\<rfloor>"] bitlen_nonneg [of "\<lfloor>x\<rfloor>"] by linarith
  from lo have "(of_int (2 ^ nat (bitlen \<lfloor>x\<rfloor> - 1)) :: rat) \<le> of_int \<lfloor>x\<rfloor>"
    by (simp only: of_int_le_iff)
  also have "\<dots> \<le> x" by simp
  finally have 1: "pow2 (binade x) \<le> x"
    using True b by (simp add: binade_def pow2_def)
  from hi have "\<lfloor>x\<rfloor> + 1 \<le> 2 ^ nat (bitlen \<lfloor>x\<rfloor>)" by simp
  then have "(of_int (\<lfloor>x\<rfloor> + 1) :: rat) \<le> of_int (2 ^ nat (bitlen \<lfloor>x\<rfloor>))"
    by (simp only: of_int_le_iff)
  moreover have "x < of_int (\<lfloor>x\<rfloor> + 1)" by linarith
  ultimately have "x < of_int (2 ^ nat (bitlen \<lfloor>x\<rfloor>))" by linarith
  then have 2: "x < pow2 (binade x + 1)"
    using True b by (simp add: binade_def pow2_def)
  from 1 2 show ?thesis ..
next
  case False
  define n where "n = \<lceil>1 / x\<rceil> - 1"
  define k where "k = nat (bitlen n)"
  from False assms have "1 < 1 / x" by simp
  then have pos: "0 < n" by (simp add: n_def less_ceiling_iff)
  from bitlen_bounds [OF pos]
  have lo: "2 ^ nat (bitlen n - 1) \<le> n" and hi: "n < 2 ^ k"
    by (simp_all add: k_def)
  from pos have b: "1 \<le> bitlen n"
    using bitlen_eq_zero_iff [of n] bitlen_nonneg [of n] by linarith
  then have k: "bitlen n = int k" "0 < k" by (simp_all add: k_def)
  have bin: "binade x = - int k"
    unfolding binade_def n_def [symmetric] using False k(1) by simp
  \<comment> \<open>\<open>n < 1 / x \<le> n + 1\<close>\<close>
  have "of_int n < 1 / x" using ceiling_correct [of "1 / x"] by (simp add: n_def)
  have up: "1 / x \<le> of_int (n + 1)" by (simp add: n_def le_of_int_ceiling)
  from hi have "n + 1 \<le> 2 ^ k" by simp
  then have "(of_int (n + 1) :: rat) \<le> of_int (2 ^ k)" by (simp only: of_int_le_iff)
  with up have "1 / x \<le> 2 ^ k" by simp
  with assms have "1 \<le> 2 ^ k * x" by (simp add: divide_le_eq)
  then have 1: "pow2 (binade x) \<le> x"
    using k(2) by (simp add: bin pow2_def divide_le_eq mult.commute)
  have "(2 :: rat) ^ nat (bitlen n - 1) = of_int (2 ^ nat (bitlen n - 1))" by simp
  also from lo have "\<dots> \<le> of_int n" by (simp only: of_int_le_iff)
  also note \<open>of_int n < 1 / x\<close>
  finally have "(2 :: rat) ^ nat (bitlen n - 1) < 1 / x" .
  moreover have "nat (bitlen n - 1) = k - 1" by (simp add: k nat_diff_distrib)
  ultimately have "(2 :: rat) ^ (k - 1) < 1 / x" by (simp only:)
  with assms have "x * 2 ^ (k - 1) < 1" by (simp add: less_divide_eq mult.commute)
  then have 2: "x < pow2 (binade x + 1)"
    using k(2) by (cases k) (auto simp: bin pow2_def less_divide_eq)
  from 1 2 show ?thesis ..
qed

lemma fl_of_int:
  assumes "0 \<le> n" and "n < 2 ^ 53"
  shows "fl (of_int n) = Num (of_int n)"
proof (cases "n = 0")
  case True
  then show ?thesis by (simp add: fl_def)
next
  case False
  with assms have pos: "0 < n" by simp
  define b where "b = bitlen n"
  define k where "k = nat (53 - b)"
  from pos have b1: "1 \<le> b"
    using bitlen_eq_zero_iff [of n] bitlen_nonneg [of n] by (simp add: b_def)
  from assms(2) have b53: "b \<le> 53"
    by (simp add: b_def bitlen_le_iff_power)
  have a: "\<bar>of_int n :: rat\<bar> = of_int n" using pos by simp
  have bin: "binade (of_int n) = b - 1"
    using pos by (simp add: binade_def b_def)
  have e: "max (binade (of_int n)) (- 1022) = b - 1"
    using b1 by (simp add: bin)
  have ulp: "pow2 (b - 1 - 52) = 1 / 2 ^ k"
    using b53 by (cases "b = 53") (simp_all add: pow2_def k_def)
  have m: "roundHalfEven (of_int n / (1 / 2 ^ k)) = n * 2 ^ k"
  proof -
    have "(of_int n :: rat) / (1 / 2 ^ k) = of_int (n * 2 ^ k)" by simp
    then show ?thesis by (simp only: roundHalfEven_of_int)
  qed
  have y: "(of_int (n * 2 ^ k) :: rat) * (1 / 2 ^ k) = of_int n" by simp
  have no: "\<not> (1024 \<le> b - 1 \<or> b - 1 = 1023 \<and> n * 2 ^ k = 2 ^ 53)"
    using b53 by linarith
  have nz: "(of_int n :: rat) \<noteq> 0" "(0 :: rat) < of_int n" using pos by simp_all
  show ?thesis
    unfolding fl_def Let_def a e ulp m y using no nz by (simp only: if_False if_True)
qed


lemma pow2_pred: "pow2 (e - 1) = pow2 e / 2"
proof (cases "1 \<le> e")
  case True
  then have "nat e = Suc (nat (e - 1))" by simp
  then have "(2::rat) ^ nat e = 2 * 2 ^ nat (e - 1)" by simp
  with True show ?thesis by (simp add: pow2_def)
next
  case False
  then have "nat (- (e - 1)) = Suc (nat (- e))" by simp
  then have "(2::rat) ^ nat (- (e - 1)) = 2 * 2 ^ nat (- e)" by (simp only: power_Suc)
  with False show ?thesis by (simp add: pow2_def)
qed

lemma fl_near:
  assumes "fl x = Num y"
  shows "\<bar>y - x\<bar> \<le> pow2 (max (binade \<bar>x\<bar>) (- 1022) - 53)"
proof (cases "x = 0")
  case True
  with assms show ?thesis by (simp add: fl_def pow2_def)
next
  case False
  define e where "e = max (binade \<bar>x\<bar>) (- 1022)"
  define u where "u = pow2 (e - 52)"
  define m where "m = roundHalfEven (\<bar>x\<bar> / u)"
  have u: "0 < u" by (simp add: u_def pow2_def)
  have "pow2 (e - 52 - 1) = u / 2"
    unfolding u_def by (rule pow2_pred)
  then have half: "pow2 (e - 53) = u / 2" by simp
  have "fl x = (if 1024 \<le> e \<or> (e = 1023 \<and> m = 2 ^ 53)
                then (if 0 < x then PosInf else NegInf)
                else Num (if 0 < x then of_int m * u else - (of_int m * u)))"
    unfolding fl_def Let_def e_def u_def m_def using False by (simp only: if_False)
  with assms have y: "y = (if 0 < x then of_int m * u else - (of_int m * u))"
    by (simp split: if_splits)
  have "\<bar>of_int m - \<bar>x\<bar> / u\<bar> \<le> 1 / 2"
    unfolding m_def by (rule roundHalfEven_near)
  then have "\<bar>of_int m - \<bar>x\<bar> / u\<bar> * u \<le> 1 / 2 * u"
    using u by (simp only: mult_le_cancel_right_pos)
  moreover have "\<bar>of_int m - \<bar>x\<bar> / u\<bar> * u = \<bar>of_int m * u - \<bar>x\<bar>\<bar>"
  proof -
    have "\<bar>of_int m - \<bar>x\<bar> / u\<bar> * u = \<bar>(of_int m - \<bar>x\<bar> / u) * u\<bar>"
      using u by (simp add: abs_mult)
    also have "(of_int m - \<bar>x\<bar> / u) * u = of_int m * u - \<bar>x\<bar>"
      using u by (simp add: left_diff_distrib)
    finally show ?thesis .
  qed
  ultimately have "\<bar>of_int m * u - \<bar>x\<bar>\<bar> \<le> u / 2" by simp
  with y False have "\<bar>y - x\<bar> \<le> u / 2"
    by (cases "0 < x") (auto simp: abs_if split: if_splits)
  then show ?thesis unfolding half [symmetric] e_def .
qed

subsection \<open>Exact cases\<close>

lemma js_div_same: "0 < w \<Longrightarrow> js_div (Num (of_int w)) (Num (of_int w)) = Num 1"
  using fl_of_int [of 1] by simp

lemma js_mul_one:
  "0 \<le> h \<Longrightarrow> h < 2 ^ 53 \<Longrightarrow> js_mul (Num (of_int h)) (Num 1) = Num (of_int h)"
  using fl_of_int [of h] by simp

lemma js_add_int:
  "0 \<le> a \<Longrightarrow> 0 \<le> b \<Longrightarrow> a + b < 2 ^ 53
     \<Longrightarrow> js_add (Num (of_int a)) (Num (of_int b)) = Num (of_int (a + b))"
  using fl_of_int [of "a + b"] by simp

lemma foldl_js_add_int:
  assumes "0 \<le> s" and "\<forall>h\<in>set hs. 0 \<le> h" and "s + sum_list hs < 2 ^ 53"
  shows "foldl js_add (Num (of_int s)) (map (\<lambda>h. Num (of_int h)) hs)
           = Num (of_int (s + sum_list hs))"
  using assms
proof (induction hs arbitrary: s)
  case Nil
  then show ?case by simp
next
  case (Cons h hs)
  from Cons.prems have h: "0 \<le> h" and rest: "\<forall>h\<in>set hs. 0 \<le> h" by simp_all
  from rest have "0 \<le> sum_list hs" by (simp add: sum_list_nonneg)
  with Cons.prems have small: "s + h < 2 ^ 53" by simp
  have step: "js_add (Num (of_int s)) (Num (of_int h)) = Num (of_int (s + h))"
    using Cons.prems(1) h small by (rule js_add_int)
  have "foldl js_add (Num (of_int (s + h))) (map (\<lambda>h. Num (of_int h)) hs)
            = Num (of_int (s + h + sum_list hs))"
    using Cons.prems h by (intro Cons.IH rest) (simp_all add: add.assoc)
  then show ?case
    by (simp only: list.map foldl_Cons step sum_list.Cons add.assoc)
qed

lemma Math_round_int: "Math_round (Num (of_int z)) = Num (of_int z)"
proof -
  have "\<lfloor>(of_int z :: rat) + 1 / 2\<rfloor> = round (of_int z :: rat)"
    by (simp only: round_def)
  then show ?thesis by (simp only: Math_round.simps round_of_int)
qed

lemma ulong_num_int: "ulong_num w = Num (of_int (uint w))"
  by (simp only: ulong_num_def)

lemma sum_heights_bound:
  "0 \<le> (\<Sum>i\<leftarrow>imgs. uint (naturalHeight i)) \<and>
   (\<Sum>i\<leftarrow>imgs. uint (naturalHeight i)) \<le> int (length imgs) * (2 ^ 32 - 1)"
proof (induction imgs)
  case Nil
  show ?case by simp
next
  case (Cons i imgs)
  have "uint (naturalHeight i) < 2 ^ 32"
    using uint_bounded [of "naturalHeight i"] by simp
  moreover have "0 \<le> uint (naturalHeight i)" by simp
  ultimately show ?case using Cons.IH by (simp add: algebra_simps)
qed

lemma scaledHeight_same_width:
  assumes "naturalWidth i = w" and "w \<noteq> 0"
  shows "scaledHeight (drawDatum (ulong_num w) i) = Num (of_int (uint (naturalHeight i)))"
proof -
  from assms(2) have "uint w \<noteq> 0" by (simp add: uint_0_iff)
  moreover have "0 \<le> uint w" by simp
  ultimately have "0 < uint w" by linarith
  then have one: "js_div (Num (of_int (uint w))) (Num (of_int (uint w))) = Num 1"
    by (rule js_div_same)
  have "uint (naturalHeight i) < 2 ^ 32"
    using uint_bounded [of "naturalHeight i"] by simp
  then have "uint (naturalHeight i) < 2 ^ 53" by simp
  moreover have "0 \<le> uint (naturalHeight i)" by simp
  ultimately have "js_mul (Num (of_int (uint (naturalHeight i)))) (Num 1)
                     = Num (of_int (uint (naturalHeight i)))"
    by (intro js_mul_one)
  then show ?thesis
    unfolding drawDatum_def Let_def ulong_num_int assms(1) one by (simp only: imageDrawDatum.simps)
qed

lemma totalHeight_same_width:
  assumes "\<forall>i\<in>set imgs. naturalWidth i = w" and "w \<noteq> 0"
    and "(\<Sum>i\<leftarrow>imgs. uint (naturalHeight i)) < 2 ^ 53"
  shows "totalHeightOf (imageDrawData (ulong_num w) imgs)
           = Num (of_int (\<Sum>i\<leftarrow>imgs. uint (naturalHeight i)))"
proof -
  have "totalHeightOf (imageDrawData (ulong_num w) imgs)
          = foldl js_add (Num 0) (map (\<lambda>i. scaledHeight (drawDatum (ulong_num w) i)) imgs)"
    by (simp add: totalHeightOf_def imageDrawData_def foldl_map)
  also have "map (\<lambda>i. scaledHeight (drawDatum (ulong_num w) i)) imgs
               = map (\<lambda>i. Num (of_int (uint (naturalHeight i)))) imgs"
    using assms(1,2) by (intro map_cong refl scaledHeight_same_width) simp_all
  also have "\<dots> = map (\<lambda>h. Num (of_int h)) (map (\<lambda>i. uint (naturalHeight i)) imgs)"
    by (simp only: map_map comp_def)
  finally have "totalHeightOf (imageDrawData (ulong_num w) imgs)
          = foldl js_add (Num (of_int 0))
              (map (\<lambda>h. Num (of_int h)) (map (\<lambda>i. uint (naturalHeight i)) imgs))"
    by simp
  also have "\<dots> = Num (of_int (0 + (\<Sum>i\<leftarrow>imgs. uint (naturalHeight i))))"
    using assms(3) by (intro foldl_js_add_int) simp_all
  finally show ?thesis by simp
qed

lemma specHeight_same_width:
  assumes "\<forall>i\<in>set imgs. naturalWidth i = naturalWidth (imgs ! 0)"
    and "naturalWidth (imgs ! 0) \<noteq> 0"
  shows "specHeight imgs = (\<Sum>i\<leftarrow>imgs. uint (naturalHeight i))"
proof -
  let ?w = "of_int (uint (naturalWidth (imgs ! 0))) :: rat"
  from assms(2) have "uint (naturalWidth (imgs ! 0)) \<noteq> 0" by (simp add: uint_0_iff)
  then have w: "?w \<noteq> 0" by (simp only: of_int_eq_0_iff) simp
  have "(\<Sum>i\<leftarrow>imgs. exactScaled (naturalWidth (imgs ! 0)) i)
          = (\<Sum>i\<leftarrow>imgs. of_int (uint (naturalHeight i)))"
  proof (rule arg_cong [where f = sum_list], rule map_cong [OF refl])
    fix i assume "i \<in> set imgs"
    with assms(1) have "naturalWidth i = naturalWidth (imgs ! 0)" by simp
    then show "exactScaled (naturalWidth (imgs ! 0)) i = of_int (uint (naturalHeight i))"
      unfolding exactScaled_def using w by simp
  qed
  also have "\<dots> = of_int (\<Sum>i\<leftarrow>imgs. uint (naturalHeight i))"
    by (induction imgs) simp_all
  finally show ?thesis
    by (simp only: specHeight_def specTotal_def round_of_int)
qed

subsection \<open>The error of a total height\<close>

lemma pow2_powi: "pow2 e = 2 powi e"
  by (simp add: pow2_def power_int_def field_simps)

lemma pow2_mono: "a \<le> b \<Longrightarrow> pow2 a \<le> pow2 b"
  unfolding pow2_powi by (rule power_int_increasing) simp_all

lemma pow2_shift: "pow2 (e - 53) = pow2 e / 2 ^ 53"
  unfolding pow2_powi by (simp add: power_int_diff)

lemma pow2_tiny: "pow2 (- 1022) \<le> 1 / 2 ^ 33"
proof -
  have "pow2 (- 1022) \<le> pow2 (- 33)" by (rule pow2_mono) simp
  then show ?thesis by (simp add: pow2_def)
qed

lemma fl_rel:
  assumes "pow2 (- 1022) \<le> x" and "x < 2 ^ 1023"
  shows "\<exists>y. fl x = Num y \<and> x * (2 - (1 + 1 / 2 ^ 53)) \<le> y \<and> y \<le> x * (1 + 1 / 2 ^ 53)"
proof -
  have "0 < pow2 (- 1022)" by (simp add: pow2_def)
  with assms(1) have pos: "0 < x" by linarith
  with assms(2) have "\<bar>x\<bar> < 2 ^ 1023" by simp
  then obtain y where y: "fl x = Num y"
    using fl_finite by blast
  have normal: "- 1022 \<le> binade x"
  proof (rule ccontr)
    assume "\<not> - 1022 \<le> binade x"
    then have "binade x + 1 \<le> - 1022" by simp
    then have "pow2 (binade x + 1) \<le> pow2 (- 1022)" by (rule pow2_mono)
    with binade_bounds [OF pos] assms(1) show False by linarith
  qed
  from fl_near [OF y] pos have "\<bar>y - x\<bar> \<le> pow2 (max (binade x) (- 1022) - 53)"
    by simp
  also have "max (binade x) (- 1022) = binade x"
    using normal by simp
  also have "pow2 (binade x - 53) = pow2 (binade x) / 2 ^ 53"
    by (rule pow2_shift)
  also have "\<dots> \<le> x / 2 ^ 53"
    using binade_bounds [OF pos] by (simp add: divide_right_mono)
  finally have near: "\<bar>y - x\<bar> \<le> x / 2 ^ 53" .
  define d where "d = x / 2 ^ 53"
  from near have "\<bar>y - x\<bar> \<le> d" by (simp only: d_def)
  then have "x - d \<le> y" and "y \<le> x + d" by linarith+
  moreover have "x * (2 - (1 + 1 / 2 ^ 53)) = x - d" and "x * (1 + 1 / 2 ^ 53) = x + d"
    by (simp_all add: d_def algebra_simps)
  ultimately have "x * (2 - (1 + 1 / 2 ^ 53)) \<le> y \<and> y \<le> x * (1 + 1 / 2 ^ 53)"
    by (simp only:)
  with y show ?thesis by blast
qed

lemma q_power_bound:
  assumes "m \<le> 2 ^ 12"
  shows "(1 + 1 / 2 ^ 53 :: rat) ^ m \<le> 1 + of_nat m / 2 ^ 52"
  using assms
proof (induction m)
  case 0
  show ?case by simp
next
  case (Suc m)
  let ?q = "1 + 1 / 2 ^ 53 :: rat"
  from Suc.prems have m: "(of_nat m :: rat) \<le> 2 ^ 12"
    by (metis Suc_leD of_nat_le_iff of_nat_numeral of_nat_power)
  from Suc have "?q ^ m \<le> 1 + of_nat m / 2 ^ 52" by simp
  then have "?q ^ m * ?q \<le> (1 + of_nat m / 2 ^ 52) * ?q"
    by (rule mult_right_mono) simp
  also have "\<dots> = 1 + of_nat m / 2 ^ 52 + 1 / 2 ^ 53 + of_nat m / 2 ^ 105"
    by (simp add: algebra_simps)
  also have "\<dots> \<le> 1 + of_nat (Suc m) / 2 ^ 52"
    using m by (simp add: field_simps)
  finally show ?case by (simp add: mult.commute)
qed

lemma q_power_ge1: "1 \<le> (1 + 1 / 2 ^ 53 :: rat) ^ m"
  by (rule one_le_power) simp

lemma round_close:
  fixes a b :: rat
  assumes "\<bar>a - b\<bar> < 1"
  shows "\<bar>round a - round b\<bar> \<le> 1"
proof -
  have step: "round x \<le> round y + 1" if "x < y + 1" for x y :: rat
  proof -
    from that have "x + 1 / 2 \<le> (y + 1 / 2) + 1" by simp
    then have "\<lfloor>x + 1 / 2\<rfloor> \<le> \<lfloor>(y + 1 / 2) + 1\<rfloor>" by (rule floor_mono)
    also have "\<dots> = \<lfloor>y + 1 / 2\<rfloor> + 1" using floor_add_int [of "y + 1 / 2" 1] by simp
    finally show ?thesis by (simp only: round_def)
  qed
  from assms have "a < b + 1" "b < a + 1" by linarith+
  from step [OF this(1)] step [OF this(2)] show ?thesis by linarith
qed


lemma ulong_rat:
  fixes w :: "32 word"
  shows "0 \<le> (of_int (uint w) :: rat)" and "(of_int (uint w) :: rat) < 2 ^ 32"
    and "w \<noteq> 0 \<Longrightarrow> 1 \<le> (of_int (uint w) :: rat)"
proof -
  show "0 \<le> (of_int (uint w) :: rat)" and "(of_int (uint w) :: rat) < 2 ^ 32"
    using ulong_bounds [of w] by (simp_all only:)
  assume "w \<noteq> 0"
  then have "uint w \<noteq> 0" by (simp add: uint_0_iff)
  moreover have "0 \<le> uint w" by simp
  ultimately have "1 \<le> uint w" by linarith
  then show "1 \<le> (of_int (uint w) :: rat)" by (simp only: of_int_1_le_iff)
qed

lemma exactScaled_range:
  assumes "naturalWidth i \<noteq> 0" and "t \<noteq> 0"
  shows "0 \<le> exactScaled t i" and "exactScaled t i = 0 \<or> 1 / 2 ^ 32 \<le> exactScaled t i"
proof -
  define H T W :: rat where "H = of_int (uint (naturalHeight i))"
    and "T = of_int (uint t)" and "W = of_int (uint (naturalWidth i))"
  have H: "0 \<le> H" unfolding H_def by (rule ulong_rat(1))
  have T: "1 \<le> T" unfolding T_def by (rule ulong_rat(3) [OF assms(2)])
  have W: "1 \<le> W" "W < 2 ^ 32"
    unfolding W_def by (rule ulong_rat(3) [OF assms(1)], rule ulong_rat(2))
  have ex: "exactScaled t i = H * T / W"
    by (simp only: exactScaled_def H_def T_def W_def)
  show "0 \<le> exactScaled t i"
    unfolding ex using H T W by simp
  show "exactScaled t i = 0 \<or> 1 / 2 ^ 32 \<le> exactScaled t i"
  proof (cases "H = 0")
    case True
    then show ?thesis by (simp add: ex)
  next
    case False
    have "naturalHeight i \<noteq> 0"
    proof
      assume "naturalHeight i = 0"
      then have "H = 0" by (simp add: H_def)
      with False show False ..
    qed
    then have "1 \<le> H" unfolding H_def by (rule ulong_rat(3))
    with T have "1 * 1 \<le> H * T" by (intro mult_mono) simp_all
    then have "1 \<le> H * T" by simp
    then have "1 / W \<le> H * T / W" using W by (simp add: divide_right_mono)
    moreover have "1 / 2 ^ 32 \<le> 1 / W" using W by (simp add: frac_le)
    ultimately show ?thesis unfolding ex by linarith
  qed
qed

lemma scaledHeight_rel:
  assumes "naturalWidth i \<noteq> 0" and "t \<noteq> 0"
  shows "\<exists>z. scaledHeight (drawDatum (ulong_num t) i) = Num z \<and>
             exactScaled t i * (2 - (1 + 1 / 2 ^ 53) ^ 2) \<le> z \<and>
             z \<le> exactScaled t i * (1 + 1 / 2 ^ 53) ^ 2"
proof -
  define q :: rat where "q = 1 + 1 / 2 ^ 53"
  define H T W :: rat where "H = of_int (uint (naturalHeight i))"
    and "T = of_int (uint t)" and "W = of_int (uint (naturalWidth i))"
  have q: "1 \<le> q" "q \<le> 2" "0 < 2 - q" "1 / 2 \<le> 2 - q"
    by (simp_all add: q_def)
  have qq: "2 - q * q \<le> (2 - q) * (2 - q)"
  proof -
    have "(2 - q) * (2 - q) = 2 - q * q + 2 * ((q - 1) * (q - 1))"
      by (simp add: algebra_simps)
    moreover have "0 \<le> (q - 1) * (q - 1)" by simp
    ultimately show ?thesis by linarith
  qed
  have H: "0 \<le> H" "H < 2 ^ 32"
    unfolding H_def by (rule ulong_rat(1), rule ulong_rat(2))
  have T: "1 \<le> T" "T < 2 ^ 32"
    unfolding T_def by (rule ulong_rat(3) [OF assms(2)], rule ulong_rat(2))
  have W: "1 \<le> W" "W < 2 ^ 32"
    unfolding W_def by (rule ulong_rat(3) [OF assms(1)], rule ulong_rat(2))
  have ex: "exactScaled t i = H * (T / W)"
    by (simp add: exactScaled_def H_def T_def W_def)
  have sh: "scaledHeight (drawDatum (ulong_num t) i) = js_mul (Num H) (js_div (Num T) (Num W))"
    by (simp only: drawDatum_def Let_def ulong_num_def H_def T_def W_def imageDrawDatum.simps)
  \<comment> \<open>the scale factor\<close>
  have x1_lo: "1 / 2 ^ 32 \<le> T / W"
  proof -
    have "1 / 2 ^ 32 \<le> 1 / W" using W by (simp add: frac_le)
    also have "1 / W \<le> T / W" using T W by (simp add: divide_right_mono)
    finally show ?thesis .
  qed
  have x1_hi: "T / W \<le> T" using T W by (simp add: divide_le_eq mult_le_cancel_left1)
  have "(1::rat) / 2 ^ 33 \<le> 1 / 2 ^ 32" by simp
  with pow2_tiny have "pow2 (- 1022) \<le> 1 / 2 ^ 32" by (rule order_trans)
  then have "pow2 (- 1022) \<le> T / W" using x1_lo by (rule order_trans)
  moreover have "T / W < 2 ^ 1023"
  proof -
    have "T / W < 2 ^ 32" using x1_hi T by linarith
    also have "(2::rat) ^ 32 \<le> 2 ^ 1023" by (rule power_increasing) simp_all
    finally show ?thesis .
  qed
  ultimately obtain y where y: "fl (T / W) = Num y"
    and y_lo: "T / W * (2 - q) \<le> y" and y_hi: "y \<le> T / W * q"
    using fl_rel [of "T / W"] unfolding q_def by blast
  have W0: "W \<noteq> 0" using W by simp
  have sf: "js_div (Num T) (Num W) = Num y"
    using W0 by (simp only: js_div.simps if_False y)
  have y_pos: "1 / 2 ^ 33 \<le> y"
  proof -
    have "0 \<le> T / W" using T W by simp
    have "(1::rat) / 2 ^ 33 = 1 / 2 ^ 32 * (1 / 2)" by simp
    also have "\<dots> \<le> T / W * (2 - q)"
      using x1_lo q(4) \<open>0 \<le> T / W\<close> by (intro mult_mono) simp_all
    also note y_lo
    finally show ?thesis .
  qed
  have y_top: "y \<le> 2 ^ 33"
  proof -
    have "T / W \<le> 2 ^ 32" using x1_hi T by linarith
    moreover have "0 \<le> q" using q by linarith
    ultimately have "T / W * q \<le> 2 ^ 32 * 2"
      using q(2) by (intro mult_mono) simp_all
    also have "\<dots> = (2::rat) ^ 33" by simp
    finally show ?thesis using y_hi by (rule order_trans [rotated])
  qed
  show ?thesis
  proof (cases "H = 0")
    case True
    have fl0: "fl 0 = Num 0" by (simp add: fl_def)
    have "scaledHeight (drawDatum (ulong_num t) i) = Num 0"
      unfolding sh sf by (simp only: js_mul.simps True mult_zero_left fl0)
    moreover have "exactScaled t i = 0" by (simp only: ex True mult_zero_left)
    ultimately show ?thesis by simp
  next
    case False
    have "naturalHeight i \<noteq> 0"
    proof
      assume "naturalHeight i = 0"
      then have "H = 0" by (simp add: H_def)
      with False show False ..
    qed
    then have H1: "1 \<le> H" unfolding H_def by (rule ulong_rat(3))
    have y0: "0 \<le> y" using y_pos by simp
    have "1 * y \<le> H * y" using H1 y0 by (intro mult_right_mono) simp_all
    then have "y \<le> H * y" by simp
    with y_pos have lo: "1 / 2 ^ 33 \<le> H * y" by (rule order_trans)
    have "H \<le> 2 ^ 32" using H(2) by simp
    then have "H * y \<le> 2 ^ 32 * 2 ^ 33" using y_top y0 by (intro mult_mono) simp_all
    also have "\<dots> < (2::rat) ^ 66" by simp
    also have "(2::rat) ^ 66 \<le> 2 ^ 1023" by (rule power_increasing) simp_all
    finally have hi: "H * y < 2 ^ 1023" .
    from pow2_tiny lo have "pow2 (- 1022) \<le> H * y" by (rule order_trans)
    from fl_rel [OF this hi] obtain z where z: "fl (H * y) = Num z"
      and z_lo: "H * y * (2 - q) \<le> z" and z_hi: "z \<le> H * y * q"
      unfolding q_def by blast
    have "scaledHeight (drawDatum (ulong_num t) i) = Num z"
      unfolding sh sf by (simp only: js_mul.simps z)
    moreover have "z \<le> exactScaled t i * q ^ 2"
    proof -
      have "H * y \<le> H * (T / W * q)" using y_hi H by (intro mult_left_mono) simp_all
      then have "H * y * q \<le> H * (T / W * q) * q" using q by (intro mult_right_mono) simp_all
      with z_hi show ?thesis by (simp add: ex power2_eq_square mult.assoc)
    qed
    moreover have "exactScaled t i * (2 - q ^ 2) \<le> z"
    proof -
      have e0: "0 \<le> H * (T / W)" using H T W by simp
      have "H * (T / W) * (2 - q * q) \<le> H * (T / W) * ((2 - q) * (2 - q))"
        using qq e0 by (rule mult_left_mono)
      also have "\<dots> = H * (T / W * (2 - q)) * (2 - q)" by (simp add: mult.assoc)
      also have "\<dots> \<le> H * y * (2 - q)"
      proof -
        have "H * (T / W * (2 - q)) \<le> H * y" using y_lo H by (intro mult_left_mono) simp_all
        then show ?thesis using q by (intro mult_right_mono) simp_all
      qed
      also note z_lo
      finally show ?thesis by (simp add: ex power2_eq_square)
    qed
    ultimately show ?thesis unfolding q_def by blast
  qed
qed


lemma exactScaled_sum_nonneg:
  assumes "t \<noteq> 0" and "\<forall>i\<in>set imgs. naturalWidth i \<noteq> 0"
  shows "0 \<le> (\<Sum>i\<leftarrow>imgs. exactScaled t i)"
  using assms by (intro sum_list_nonneg) (auto simp: exactScaled_range)

lemma js_add_rel:
  fixes G :: rat
  assumes s: "E * (2 - G) \<le> s" "s \<le> E * G"
    and z: "e * (2 - G) \<le> z" "z \<le> e * G"
    and E: "0 \<le> E" "E = 0 \<or> 1 / 2 ^ 32 \<le> E"
    and e: "0 \<le> e" "e = 0 \<or> 1 / 2 ^ 32 \<le> e"
    and G: "1 \<le> G" "G \<le> 3 / 2"
    and small: "E + e < 2 ^ 40"
  shows "\<exists>s'. js_add (Num s) (Num z) = Num s' \<and>
           (E + e) * (2 - G * (1 + 1 / 2 ^ 53)) \<le> s' \<and> s' \<le> (E + e) * (G * (1 + 1 / 2 ^ 53))"
proof -
  define q :: rat where "q = 1 + 1 / 2 ^ 53"
  have q: "1 \<le> q" "0 < 2 - q" "0 \<le> q"
    by (simp_all add: q_def)
  have hi: "s + z \<le> (E + e) * G"
    using s(2) z(2) by (simp add: algebra_simps)
  have lo: "(E + e) * (2 - G) \<le> s + z"
    using s(1) z(1) by (simp add: algebra_simps)
  have sum0: "0 \<le> E + e" using E(1) e(1) by simp
  show ?thesis
  proof (cases "E + e = 0")
    case True
    with E(1) e(1) have "E = 0" "e = 0" by linarith+
    with s z have "s = 0" "z = 0" by simp_all
    moreover have "fl 0 = Num 0" by (simp add: fl_def)
    ultimately have "js_add (Num s) (Num z) = Num 0" by simp
    with True show ?thesis by simp
  next
    case False
    with E e have L: "1 / 2 ^ 32 \<le> E + e" by linarith
    have "(1::rat) / 2 ^ 33 = 1 / 2 ^ 32 * (1 / 2)" by simp
    also have "\<dots> \<le> (E + e) * (2 - G)"
      using L G(2) sum0 by (intro mult_mono) simp_all
    also note lo
    finally have x_lo: "1 / 2 ^ 33 \<le> s + z" .
    with pow2_tiny have normal: "pow2 (- 1022) \<le> s + z" by (rule order_trans)
    have "(E + e) * G \<le> 2 ^ 40 * (3 / 2)"
      using small G sum0 by (intro mult_mono) simp_all
    also have "\<dots> < (2::rat) ^ 41" by simp
    also have "(2::rat) ^ 41 \<le> 2 ^ 1023" by (rule power_increasing) simp_all
    finally have "(E + e) * G < 2 ^ 1023" .
    with hi have finite: "s + z < 2 ^ 1023" by (rule le_less_trans)
    from fl_rel [OF normal finite] obtain s' where s': "fl (s + z) = Num s'"
      and s'_lo: "(s + z) * (2 - q) \<le> s'" and s'_hi: "s' \<le> (s + z) * q"
      unfolding q_def by blast
    have "js_add (Num s) (Num z) = Num s'"
      by (simp only: js_add.simps s')
    moreover have "s' \<le> (E + e) * (G * q)"
    proof -
      have "(s + z) * q \<le> (E + e) * G * q"
        using hi q(3) by (rule mult_right_mono)
      with s'_hi show ?thesis by (simp add: mult.assoc)
    qed
    moreover have "(E + e) * (2 - G * q) \<le> s'"
    proof -
      have "(2 - G) * (2 - q) = 2 - G * q + 2 * ((q - 1) * (G - 1))"
        by (simp add: algebra_simps)
      moreover have "0 \<le> (q - 1) * (G - 1)"
        using q(1) G(1) by simp
      ultimately have "2 - G * q \<le> (2 - G) * (2 - q)" by linarith
      then have "(E + e) * (2 - G * q) \<le> (E + e) * ((2 - G) * (2 - q))"
        using sum0 by (rule mult_left_mono)
      also have "\<dots> = (E + e) * (2 - G) * (2 - q)" by (simp only: mult.assoc)
      also have "\<dots> \<le> (s + z) * (2 - q)"
        using lo q(2) by (intro mult_right_mono) simp_all
      also note s'_lo
      finally show ?thesis .
    qed
    ultimately show ?thesis unfolding q_def by blast
  qed
qed

lemma fold_rel:
  assumes "t \<noteq> 0" and "\<forall>i\<in>set imgs. naturalWidth i \<noteq> 0"
    and "E * (2 - (1 + 1 / 2 ^ 53) ^ (k + 2)) \<le> s" and "s \<le> E * (1 + 1 / 2 ^ 53) ^ (k + 2)"
    and "0 \<le> E" and "E = 0 \<or> 1 / 2 ^ 32 \<le> E"
    and "E + (\<Sum>i\<leftarrow>imgs. exactScaled t i) < 2 ^ 40"
    and "k + length imgs + 2 \<le> 2 ^ 12"
  shows "\<exists>s'. foldl js_add (Num s) (map (\<lambda>i. scaledHeight (drawDatum (ulong_num t) i)) imgs)
                = Num s' \<and>
           (E + (\<Sum>i\<leftarrow>imgs. exactScaled t i))
             * (2 - (1 + 1 / 2 ^ 53) ^ (k + length imgs + 2)) \<le> s' \<and>
           s' \<le> (E + (\<Sum>i\<leftarrow>imgs. exactScaled t i))
                  * (1 + 1 / 2 ^ 53) ^ (k + length imgs + 2)"
  using assms
proof (induction imgs arbitrary: s E k)
  case Nil
  then show ?case by simp
next
  case (Cons i imgs)
  define q :: rat where "q = 1 + 1 / 2 ^ 53"
  define G where "G = q ^ (k + 2)"
  define e where "e = exactScaled t i"
  define R where "R = (\<Sum>i\<leftarrow>imgs. exactScaled t i)"
  have q1: "1 \<le> q" by (simp add: q_def)
  from Cons.prems(2) have wi: "naturalWidth i \<noteq> 0" and rest: "\<forall>i\<in>set imgs. naturalWidth i \<noteq> 0"
    by simp_all
  have e: "0 \<le> e" "e = 0 \<or> 1 / 2 ^ 32 \<le> e"
    unfolding e_def using exactScaled_range [OF wi Cons.prems(1)] by blast+
  have R: "0 \<le> R"
    unfolding R_def using Cons.prems(1) rest by (rule exactScaled_sum_nonneg)
  from scaledHeight_rel [OF wi Cons.prems(1)] obtain z
    where z: "scaledHeight (drawDatum (ulong_num t) i) = Num z"
      and z_lo: "e * (2 - q ^ 2) \<le> z" and z_hi: "z \<le> e * q ^ 2"
    unfolding e_def q_def by blast
  have G1: "1 \<le> G" unfolding G_def using q1 by (rule one_le_power)
  have "k + 2 \<le> 2 ^ 12" using Cons.prems(8) by simp
  have "(of_nat (k + 2) :: rat) \<le> 2 ^ 12"
    using \<open>k + 2 \<le> 2 ^ 12\<close> by (metis of_nat_le_iff of_nat_numeral of_nat_power)
  then have frac: "(of_nat (k + 2) :: rat) / 2 ^ 52 \<le> 2 ^ 12 / 2 ^ 52"
    by (rule divide_right_mono) simp
  from q_power_bound [OF \<open>k + 2 \<le> 2 ^ 12\<close>] have "G \<le> 1 + of_nat (k + 2) / 2 ^ 52"
    unfolding G_def q_def .
  also have "\<dots> \<le> 1 + 2 ^ 12 / 2 ^ 52"
    using frac by (rule add_left_mono)
  also have "\<dots> \<le> (3::rat) / 2" by simp
  finally have G2: "G \<le> 3 / 2" .
  have qG: "q ^ 2 \<le> G" unfolding G_def using q1 by (rule power_increasing [rotated]) simp
  have z_lo': "e * (2 - G) \<le> z"
  proof -
    have "e * (2 - G) \<le> e * (2 - q ^ 2)" using qG e(1) by (intro mult_left_mono) simp_all
    then show ?thesis using z_lo by (rule order_trans)
  qed
  have z_hi': "z \<le> e * G"
  proof -
    have "e * q ^ 2 \<le> e * G" using qG e(1) by (rule mult_left_mono)
    with z_hi show ?thesis by (rule order_trans)
  qed
  have total: "E + e + R < 2 ^ 40"
    using Cons.prems(7) by (simp add: e_def R_def add.assoc)
  with R have small: "E + e < 2 ^ 40" by linarith
  from js_add_rel [OF _ _ z_lo' z_hi' Cons.prems(5,6) e G1 G2 small, of s] Cons.prems(3,4)
  obtain s' where s': "js_add (Num s) (Num z) = Num s'"
    and s'_lo: "(E + e) * (2 - G * q) \<le> s'" and s'_hi: "s' \<le> (E + e) * (G * q)"
    unfolding G_def q_def by blast
  have Gq: "G * q = q ^ (Suc k + 2)" by (simp add: G_def)
  have E': "0 \<le> E + e" "E + e = 0 \<or> 1 / 2 ^ 32 \<le> E + e"
    using Cons.prems(5,6) e by linarith+
  have len: "Suc k + length imgs + 2 \<le> 2 ^ 12" using Cons.prems(8) by simp
  have lo2: "(E + e) * (2 - (1 + 1 / 2 ^ 53) ^ (Suc k + 2)) \<le> s'"
    using s'_lo unfolding Gq unfolding q_def .
  have hi2: "s' \<le> (E + e) * (1 + 1 / 2 ^ 53) ^ (Suc k + 2)"
    using s'_hi unfolding Gq unfolding q_def .
  have total': "E + e + (\<Sum>i\<leftarrow>imgs. exactScaled t i) < 2 ^ 40"
    using total unfolding R_def .
  from Cons.IH [OF Cons.prems(1) rest lo2 hi2 E' total' len]
  obtain s'' where "foldl js_add (Num s') (map (\<lambda>i. scaledHeight (drawDatum (ulong_num t) i)) imgs)
                = Num s''"
    and "(E + e + (\<Sum>i\<leftarrow>imgs. exactScaled t i))
           * (2 - (1 + 1 / 2 ^ 53) ^ (Suc k + length imgs + 2)) \<le> s''"
    and "s'' \<le> (E + e + (\<Sum>i\<leftarrow>imgs. exactScaled t i))
           * (1 + 1 / 2 ^ 53) ^ (Suc k + length imgs + 2)"
    by blast
  moreover have "foldl js_add (Num s)
                   (map (\<lambda>i. scaledHeight (drawDatum (ulong_num t) i)) (i # imgs))
                 = foldl js_add (Num s')
                     (map (\<lambda>i. scaledHeight (drawDatum (ulong_num t) i)) imgs)"
    by (simp only: list.map foldl_Cons z s')
  moreover have "E + (\<Sum>i\<leftarrow>i # imgs. exactScaled t i)
                   = E + e + (\<Sum>i\<leftarrow>imgs. exactScaled t i)"
    by (simp add: e_def add.assoc)
  moreover have "k + length (i # imgs) + 2 = Suc k + length imgs + 2"
    by simp
  ultimately show ?case
    by (simp only:) blast
qed

lemma totalHeight_close:
  assumes "t \<noteq> 0" and "\<forall>i\<in>set imgs. naturalWidth i \<noteq> 0"
    and "length imgs \<le> 4094" and "(\<Sum>i\<leftarrow>imgs. exactScaled t i) < 2 ^ 40"
  shows "\<exists>s. totalHeightOf (imageDrawData (ulong_num t) imgs) = Num s \<and>
             \<bar>s - (\<Sum>i\<leftarrow>imgs. exactScaled t i)\<bar> < 1"
proof -
  define S where "S = (\<Sum>i\<leftarrow>imgs. exactScaled t i)"
  define G :: rat where "G = (1 + 1 / 2 ^ 53) ^ (0 + length imgs + 2)"
  have total: "totalHeightOf (imageDrawData (ulong_num t) imgs)
          = foldl js_add (Num 0) (map (\<lambda>i. scaledHeight (drawDatum (ulong_num t) i)) imgs)"
    by (simp add: totalHeightOf_def imageDrawData_def foldl_map)
  have S0: "0 \<le> S"
    unfolding S_def using assms(1,2) by (rule exactScaled_sum_nonneg)
  have S1: "S < 2 ^ 40"
    unfolding S_def by (rule assms(4))
  have len: "0 + length imgs + 2 \<le> 2 ^ 12"
    using assms(3) by simp
  have "0 + (\<Sum>i\<leftarrow>imgs. exactScaled t i) < 2 ^ 40"
    using assms(4) by simp
  moreover have "0 * (2 - (1 + 1 / 2 ^ 53) ^ (0 + 2)) \<le> (0::rat)"
    and "(0::rat) \<le> 0 * (1 + 1 / 2 ^ 53) ^ (0 + 2)"
    and "(0::rat) \<le> 0" and "(0::rat) = 0 \<or> 1 / 2 ^ 32 \<le> (0::rat)"
    by simp_all
  ultimately have "\<exists>s'. foldl js_add (Num 0)
                       (map (\<lambda>i. scaledHeight (drawDatum (ulong_num t) i)) imgs) = Num s' \<and>
           (0 + (\<Sum>i\<leftarrow>imgs. exactScaled t i))
             * (2 - (1 + 1 / 2 ^ 53) ^ (0 + length imgs + 2)) \<le> s' \<and>
           s' \<le> (0 + (\<Sum>i\<leftarrow>imgs. exactScaled t i))
                  * (1 + 1 / 2 ^ 53) ^ (0 + length imgs + 2)"
    using assms(1,2) len by (intro fold_rel)
  then obtain s where s: "foldl js_add (Num 0)
                       (map (\<lambda>i. scaledHeight (drawDatum (ulong_num t) i)) imgs) = Num s"
    and lo: "S * (2 - G) \<le> s" and hi: "s \<le> S * G"
    unfolding S_def G_def by auto
  have G1: "1 \<le> G" unfolding G_def by (rule q_power_ge1)
  have "(of_nat (0 + length imgs + 2) :: rat) \<le> 2 ^ 12"
    using len by (metis of_nat_le_iff of_nat_numeral of_nat_power)
  then have frac: "(of_nat (0 + length imgs + 2) :: rat) / 2 ^ 52 \<le> 2 ^ 12 / 2 ^ 52"
    by (rule divide_right_mono) simp
  from q_power_bound [OF len] have "G \<le> 1 + of_nat (0 + length imgs + 2) / 2 ^ 52"
    unfolding G_def .
  also have "\<dots> \<le> 1 + 2 ^ 12 / 2 ^ 52"
    using frac by (rule add_left_mono)
  also have "\<dots> = 1 + (1::rat) / 2 ^ 40" by simp
  finally have G2: "G - 1 \<le> 1 / 2 ^ 40" by simp
  have "S * (G - 1) \<le> S * (1 / 2 ^ 40)"
    using G2 S0 by (rule mult_left_mono)
  also have "\<dots> < 2 ^ 40 * (1 / 2 ^ 40)"
    using S1 by (intro mult_strict_right_mono) simp_all
  also have "\<dots> = (1::rat)" by simp
  finally have err: "S * (G - 1) < 1" .
  have "s - S \<le> S * (G - 1)" and "S - s \<le> S * (G - 1)"
    using lo hi by (simp_all add: algebra_simps)
  with err have "\<bar>s - S\<bar> < 1" by linarith
  with s total show ?thesis unfolding S_def by simp
qed


section \<open>The claims\<close>

text \<open>
  C1. The width of a stitch result is the natural width of the first image as decoded,
  and lists that begin with the same first element give results of the same width,
  whatever images follow.
\<close>

theorem C1_width_of_first_image:
  assumes "stitchImages env uploadedImages = Inr r"
  shows "uploadedImages \<noteq> [] \<and>
         (\<exists>first. decodeImage env (image_file (uploadedImages ! 0)) = Some first \<and>
                  width r = ulong_num (naturalWidth first)) \<and>
         (\<forall>others r'. stitchImages env (uploadedImages ! 0 # others) = Inr r'
                        \<longrightarrow> width r' = width r)"
proof -
  have first_width: "\<exists>i. decodeImage env (image_file (ups ! 0)) = Some i \<and>
                         width res = ulong_num (naturalWidth i)"
    if run: "stitchImages env ups = Inr res" for ups res
  proof -
    from stitchImages_InrD [OF run] obtain tw th c
      where sc: "stitchCanvas env ups = Inr (tw, th, c)" and w: "width res = tw"
      by blast
    from stitchCanvas_InrD [OF sc] obtain imgs
      where ne: "ups \<noteq> []"
        and dec: "map (\<lambda>u. decodeImage env (image_file u)) ups = map Some imgs"
        and tw: "tw = ulong_num (naturalWidth (imgs ! 0))"
      by blast
    from dec have len: "length imgs = length ups"
      by (metis length_map)
    with ne have pos: "0 < length ups" "0 < length imgs"
      by auto
    from dec have "map (\<lambda>u. decodeImage env (image_file u)) ups ! 0 = map Some imgs ! 0"
      by simp
    with pos have "decodeImage env (image_file (ups ! 0)) = Some (imgs ! 0)"
      by simp
    with w tw show ?thesis by blast
  qed
  from assms have ne: "uploadedImages \<noteq> []"
    using stitchImages_InrD stitchCanvas_InrD by blast
  moreover from first_width [OF assms] obtain first
    where f: "decodeImage env (image_file (uploadedImages ! 0)) = Some first"
      and w: "width r = ulong_num (naturalWidth first)"
    by blast
  moreover have "width r' = width r"
    if "stitchImages env (uploadedImages ! 0 # others) = Inr r'" for others r'
    using first_width [OF that] f w by simp
  ultimately show ?thesis by blast
qed

theorem C1_width_of_first_image_witness:
  "stitchImages demo_browser [demo_tall, demo_small]
     = Inr \<lparr>blob = [100, 97, 116, 97, 58, 105, 109, 97, 103, 101, 47, 106, 112, 101, 103,
                    59, 112, 112, 112],
            url = ''blob:1'', width = Num 22, height = Num 106\<rparr>
   \<and> decodeImage demo_browser (image_file demo_tall)
       = Some \<lparr>naturalWidth = 22, naturalHeight = 99, bitmap = []\<rparr>
   \<and> stitchImages demo_browser [demo_tall, demo_zero_width]
     = Inr \<lparr>blob = [100, 97, 116, 97, 58, 105, 109, 97, 103, 101, 47, 106, 112, 101, 103,
                    59, 112, 112, 112],
            url = ''blob:1'', width = Num 22, height = PosInf\<rparr>"
proof -
  have run: "stitchImages demo_browser [demo_tall, demo_small]
     = Inr \<lparr>blob = [100, 97, 116, 97, 58, 105, 109, 97, 103, 101, 47, 106, 112, 101, 103,
                    59, 112, 112, 112],
            url = ''blob:1'', width = Num 22, height = Num 106\<rparr>"
    by code_simp
  have dec: "decodeImage demo_browser (image_file demo_tall)
       = Some \<lparr>naturalWidth = 22, naturalHeight = 99, bitmap = []\<rparr>"
    by code_simp
  have other: "stitchImages demo_browser ([demo_tall, demo_small] ! 0 # [demo_zero_width])
     = Inr \<lparr>blob = [100, 97, 116, 97, 58, 105, 109, 97, 103, 101, 47, 106, 112, 101, 103,
                    59, 112, 112, 112],
            url = ''blob:1'', width = Num 22, height = PosInf\<rparr>"
    by code_simp
  from C1_width_of_first_image [OF run] other
  have "width \<lparr>blob = [100, 97, 116, 97, 58, 105, 109, 97, 103, 101, 47, 106, 112, 101, 103,
                    59, 112, 112, 112 :: 8 word],
            url = ''blob:1'', width = Num 22, height = PosInf\<rparr> = Num 22"
    by simp
  with run dec other show ?thesis by simp
qed

text \<open>
  C2. The claim as stated fails: for an image of 3 by 1 followed by one of 22 by 99 the
  exact sum is 14.5 and rounds to 15, while the service computes \<open>99 * (3 / 22)\<close> in
  binary64, accumulates 14.499999999999998 and returns the height 14. (Computed in binary64
  in the order the formula is written, \<open>99 * 3 / 22\<close> is 13.5 and the height would be 15
  as well.)
\<close>

theorem C2_counterexample:
  "stitchImages demo_browser [demo_small, demo_tall]
     = Inr \<lparr>blob = [100, 97, 116, 97, 58, 105, 109, 97, 103, 101, 47, 106, 112, 101, 103,
                    59, 112, 112, 112],
            url = ''blob:1'', width = Num 3, height = Num 14\<rparr>
   \<and> map (\<lambda>u. decodeImage demo_browser (image_file u)) [demo_small, demo_tall]
       = map Some [\<lparr>naturalWidth = 3, naturalHeight = 1, bitmap = []\<rparr>,
                   \<lparr>naturalWidth = 22, naturalHeight = 99, bitmap = []\<rparr>]
   \<and> specHeight [\<lparr>naturalWidth = 3, naturalHeight = 1, bitmap = []\<rparr>,
                 \<lparr>naturalWidth = 22, naturalHeight = 99, bitmap = []\<rparr>] = 15
   \<and> Math_round (js_add (js_div (js_mul (Num 1) (Num 3)) (Num 3))
                         (js_div (js_mul (Num 99) (Num 3)) (Num 22))) = Num 15"
  by code_simp

text \<open>
  C2, as amended. The height of a result is \<open>Math.round\<close>, applied once, of the total that
  step 2 accumulates: the sum, from left to right and in binary64, of the products
  \<open>naturalHeight * (targetWidth / naturalWidth)\<close> of the decoded images, none of which is
  rounded to an integer. When no image has the width 0, there are at most 4094 images and
  the exact sum is below \<open>2^40\<close>, this height is within 1 of the height the
  specification's formula gives. When every image has the width of the first one (which
  is not 0) and there are at most \<open>2^21\<close> images, nothing is rounded at all and the two
  heights are equal.
\<close>

theorem C2_height_rounded_once:
  assumes "stitchImages env uploadedImages = Inr r"
  shows "\<exists>imgs. map (\<lambda>u. decodeImage env (image_file u)) uploadedImages = map Some imgs \<and>
           height r =
             Math_round
               (foldl js_add (Num 0)
                  (map (\<lambda>i. js_mul (ulong_num (naturalHeight i))
                                 (js_div (ulong_num (naturalWidth (imgs ! 0)))
                                    (ulong_num (naturalWidth i))))
                     imgs)) \<and>
           ((\<forall>i\<in>set imgs. naturalWidth i \<noteq> 0) \<and> length imgs \<le> 4094 \<and>
            specTotal imgs < 2 ^ 40
              \<longrightarrow> (\<exists>h. height r = Num (of_int h) \<and> \<bar>h - specHeight imgs\<bar> \<le> 1)) \<and>
           ((\<forall>i\<in>set imgs. naturalWidth i = naturalWidth (imgs ! 0)) \<and>
            naturalWidth (imgs ! 0) \<noteq> 0 \<and> length imgs \<le> 2 ^ 21
              \<longrightarrow> height r = Num (of_int (specHeight imgs)))"
proof -
  from stitchImages_InrD [OF assms] obtain tw th c
    where sc: "stitchCanvas env uploadedImages = Inr (tw, th, c)"
      and h: "height r = Math_round th"
    by blast
  from stitchCanvas_InrD [OF sc] obtain imgs
    where ne: "uploadedImages \<noteq> []"
      and dec: "map (\<lambda>u. decodeImage env (image_file u)) uploadedImages = map Some imgs"
      and tw: "tw = ulong_num (naturalWidth (imgs ! 0))"
      and th: "th = totalHeightOf (imageDrawData tw imgs)"
    by blast
  from dec have "length imgs = length uploadedImages"
    by (metis length_map)
  with ne have first: "imgs ! 0 \<in> set imgs"
    by (simp add: nth_mem)
  have "totalHeightOf (imageDrawData tw imgs)
          = foldl js_add (Num 0)
              (map (\<lambda>i. js_mul (ulong_num (naturalHeight i))
                             (js_div tw (ulong_num (naturalWidth i)))) imgs)"
    by (simp add: totalHeightOf_def imageDrawData_def drawDatum_def Let_def foldl_map)
  with h th tw have formula: "height r =
             Math_round
               (foldl js_add (Num 0)
                  (map (\<lambda>i. js_mul (ulong_num (naturalHeight i))
                                 (js_div (ulong_num (naturalWidth (imgs ! 0)))
                                    (ulong_num (naturalWidth i))))
                     imgs))"
    by simp
  have near: "\<exists>h. height r = Num (of_int h) \<and> \<bar>h - specHeight imgs\<bar> \<le> 1"
    if nz: "\<forall>i\<in>set imgs. naturalWidth i \<noteq> 0" and len: "length imgs \<le> 4094"
      and small: "specTotal imgs < 2 ^ 40"
  proof -
    from nz first have t: "naturalWidth (imgs ! 0) \<noteq> 0" by blast
    from small have "(\<Sum>i\<leftarrow>imgs. exactScaled (naturalWidth (imgs ! 0)) i) < 2 ^ 40"
      by (simp only: specTotal_def)
    from totalHeight_close [OF t nz len this] th tw obtain s
      where s: "th = Num s" and close: "\<bar>s - specTotal imgs\<bar> < 1"
      by (auto simp only: specTotal_def)
    have "\<lfloor>s + 1 / 2\<rfloor> = round s" by (simp only: round_def)
    with h s have "height r = Num (of_int (round s))" by simp
    moreover from close have "\<bar>round s - specHeight imgs\<bar> \<le> 1"
      unfolding specHeight_def by (rule round_close)
    ultimately show ?thesis by blast
  qed
  have exact: "height r = Num (of_int (specHeight imgs))"
    if same: "\<forall>i\<in>set imgs. naturalWidth i = naturalWidth (imgs ! 0)"
      and nz: "naturalWidth (imgs ! 0) \<noteq> 0" and len: "length imgs \<le> 2 ^ 21"
  proof -
    let ?S = "\<Sum>i\<leftarrow>imgs. uint (naturalHeight i)"
    from len have "int (length imgs) \<le> 2 ^ 21" by simp
    then have "int (length imgs) * (2 ^ 32 - 1) \<le> 2 ^ 21 * (2 ^ 32 - 1)"
      by (rule mult_right_mono) simp
    with sum_heights_bound [of imgs] have "?S \<le> 2 ^ 21 * (2 ^ 32 - 1)" by linarith
    then have small: "?S < 2 ^ 53" by simp
    from totalHeight_same_width [OF same nz small] th tw
    have "th = Num (of_int ?S)" by simp
    with h have "height r = Num (of_int ?S)" by (simp only: Math_round_int)
    with specHeight_same_width [OF same nz] show ?thesis by simp
  qed
  from dec formula near exact show ?thesis by blast
qed

theorem C2_height_rounded_once_witness:
  "stitchImages demo_browser [demo_small, demo_tall]
     = Inr \<lparr>blob = [100, 97, 116, 97, 58, 105, 109, 97, 103, 101, 47, 106, 112, 101, 103,
                    59, 112, 112, 112],
            url = ''blob:1'', width = Num 3, height = Num 14\<rparr>
   \<and> Num 14 =
       Math_round
         (foldl js_add (Num 0)
            (map (\<lambda>i. js_mul (ulong_num (naturalHeight i))
                           (js_div (ulong_num 3) (ulong_num (naturalWidth i))))
               [\<lparr>naturalWidth = 3, naturalHeight = 1, bitmap = []\<rparr>,
                \<lparr>naturalWidth = 22, naturalHeight = 99, bitmap = []\<rparr>]))
   \<and> specTotal [\<lparr>naturalWidth = 3, naturalHeight = 1, bitmap = []\<rparr>,
                \<lparr>naturalWidth = 22, naturalHeight = 99, bitmap = []\<rparr>] = 29 / 2
   \<and> (\<exists>h. Num 14 = Num (of_int h)
           \<and> \<bar>h - specHeight [\<lparr>naturalWidth = 3, naturalHeight = 1, bitmap = []\<rparr>,
                               \<lparr>naturalWidth = 22, naturalHeight = 99, bitmap = []\<rparr>]\<bar> \<le> 1)
   \<and> stitchImages demo_browser [demo_tall, demo_tall]
     = Inr \<lparr>blob = [100, 97, 116, 97, 58, 105, 109, 97, 103, 101, 47, 106, 112, 101, 103,
                    59, 112, 112, 112],
            url = ''blob:1'', width = Num 22, height = Num 198\<rparr>
   \<and> Num 198 = Num (of_int (specHeight [\<lparr>naturalWidth = 22, naturalHeight = 99, bitmap = []\<rparr>,
                                        \<lparr>naturalWidth = 22, naturalHeight = 99, bitmap = []\<rparr>]))"
proof -
  let ?a = "\<lparr>naturalWidth = 3, naturalHeight = 1, bitmap = []\<rparr>"
  let ?t = "\<lparr>naturalWidth = 22, naturalHeight = 99, bitmap = []\<rparr>"
  let ?r14 = "\<lparr>blob = [100, 97, 116, 97, 58, 105, 109, 97, 103, 101, 47, 106, 112, 101, 103,
                    59, 112, 112, 112 :: 8 word],
            url = ''blob:1'', width = Num 3, height = Num 14\<rparr>"
  let ?r198 = "\<lparr>blob = [100, 97, 116, 97, 58, 105, 109, 97, 103, 101, 47, 106, 112, 101, 103,
                    59, 112, 112, 112 :: 8 word],
            url = ''blob:1'', width = Num 22, height = Num 198\<rparr>"
  have run: "stitchImages demo_browser [demo_small, demo_tall] = Inr ?r14"
    by code_simp
  have same: "stitchImages demo_browser [demo_tall, demo_tall] = Inr ?r198"
    by code_simp
  have decoded1: "map (\<lambda>u. decodeImage demo_browser (image_file u)) [demo_small, demo_tall]
                   = map Some [?a, ?t]"
    by code_simp
  have decoded2: "map (\<lambda>u. decodeImage demo_browser (image_file u)) [demo_tall, demo_tall]
                   = map Some [?t, ?t]"
    by code_simp
  have total: "specTotal [?a, ?t] = 29 / 2"
    by code_simp
  have h14: "height ?r14 = Num 14" and h198: "height ?r198 = Num 198"
    by simp_all
  from C2_height_rounded_once [OF run] obtain imgs1
    where dec1: "map (\<lambda>u. decodeImage demo_browser (image_file u)) [demo_small, demo_tall]
             = map Some imgs1"
      and formula: "height ?r14 =
               Math_round
                 (foldl js_add (Num 0)
                    (map (\<lambda>i. js_mul (ulong_num (naturalHeight i))
                                   (js_div (ulong_num (naturalWidth (imgs1 ! 0)))
                                      (ulong_num (naturalWidth i))))
                       imgs1))"
      and near: "(\<forall>i\<in>set imgs1. naturalWidth i \<noteq> 0) \<and> length imgs1 \<le> 4094 \<and>
            specTotal imgs1 < 2 ^ 40
              \<longrightarrow> (\<exists>h. height ?r14 = Num (of_int h) \<and> \<bar>h - specHeight imgs1\<bar> \<le> 1)"
    by blast
  from dec1 decoded1 have "map Some imgs1 = map Some [?a, ?t]" by simp
  then have imgs1: "imgs1 = [?a, ?t]" by (simp only: inj_map_eq_map [OF inj_Some])
  have "(\<forall>i\<in>set [?a, ?t]. naturalWidth i \<noteq> 0) \<and> length [?a, ?t] \<le> 4094 \<and>
            specTotal [?a, ?t] < 2 ^ 40"
    unfolding total by simp
  with near have close: "\<exists>h. Num 14 = Num (of_int h) \<and> \<bar>h - specHeight [?a, ?t]\<bar> \<le> 1"
    unfolding imgs1 h14 by blast
  from formula have rounded: "Num 14 =
       Math_round
         (foldl js_add (Num 0)
            (map (\<lambda>i. js_mul (ulong_num (naturalHeight i))
                           (js_div (ulong_num 3) (ulong_num (naturalWidth i))))
               [?a, ?t]))"
    unfolding imgs1 h14 by simp
  from C2_height_rounded_once [OF same] obtain imgs
    where dec: "map (\<lambda>u. decodeImage demo_browser (image_file u)) [demo_tall, demo_tall]
                  = map Some imgs"
      and exact: "(\<forall>i\<in>set imgs. naturalWidth i = naturalWidth (imgs ! 0)) \<and>
            naturalWidth (imgs ! 0) \<noteq> 0 \<and> length imgs \<le> 2 ^ 21
              \<longrightarrow> height ?r198 = Num (of_int (specHeight imgs))"
    by blast
  from dec decoded2 have "map Some imgs = map Some [?t, ?t]" by simp
  then have imgs: "imgs = [?t, ?t]" by (simp only: inj_map_eq_map [OF inj_Some])
  have "(\<forall>i\<in>set [?t, ?t]. naturalWidth i = naturalWidth ([?t, ?t] ! 0)) \<and>
            naturalWidth ([?t, ?t] ! 0) \<noteq> 0 \<and> length [?t, ?t] \<le> 2 ^ 21"
    by simp
  with exact have "Num 198 = Num (of_int (specHeight [?t, ?t]))"
    unfolding imgs h198 by blast
  with run same rounded total close show ?thesis by blast
qed

text \<open>
  C3. The claim as stated fails in its second half: the stitch can fail because of the
  metadata handling. \<open>fetch(finalDataUrl)\<close> stands after both \<open>try\<close> blocks, so when
  \<open>insert\<close> returns, without throwing, a value that cannot be fetched, nothing is caught
  and the whole run rejects, although the run without the library returns a result.
\<close>

theorem C3_counterexample:
  "\<not> exifFailure demo_browser_bad_insert ''data:image/jpeg;pp'' [0, 3, 0, 1]
   \<and> handleExif demo_browser_bad_insert ''data:image/jpeg;pp'' [0, 3, 0, 1]
       = JSString ''http://[''
   \<and> stitchImages demo_browser_bad_insert [demo_small] = Inl FetchTypeError
   \<and> stitchImages (demo_browser_bad_insert\<lparr>window_piexif := None\<rparr>) [demo_small]
     = Inr \<lparr>blob = [100, 97, 116, 97, 58, 105, 109, 97, 103, 101, 47, 106, 112, 101, 103,
                    59, 112, 112],
            url = ''blob:1'', width = Num 3, height = Num 1\<rparr>"
  by code_simp

text \<open>
  C3, as amended. When steps 1 to 4 have produced the canvas and something fails inside
  the EXIF step (the first file cannot be read, the library is absent, or \<open>load\<close>, \<open>dump\<close>
  or \<open>insert\<close> throws), the step hands back the stitched data URL unchanged, and the whole
  run ends as it does in a browser without the EXIF library: with the blob fetched from
  the stitched data URL. The run differs from the one without the library only when
  \<open>load\<close> gave an object and \<open>dump\<close> and \<open>insert\<close> returned without throwing; its outcome
  is then that of fetching what \<open>insert\<close> returned, and it rejects when that cannot be
  fetched.
\<close>

theorem C3_exif_failure_is_absorbed:
  assumes "stitchCanvas env uploadedImages = Inr (targetWidth, totalHeight, canvas)"
  shows "(exifFailure env (toDataURL env canvas ''image/jpeg'' (Num 1))
            (image_file (uploadedImages ! 0))
          \<longrightarrow>
            handleExif env (toDataURL env canvas ''image/jpeg'' (Num 1))
              (image_file (uploadedImages ! 0))
              = JSString (toDataURL env canvas ''image/jpeg'' (Num 1)) \<and>
            stitchImages env uploadedImages
              = (case fetchBlob env (JSString (toDataURL env canvas ''image/jpeg'' (Num 1))) of
                   None \<Rightarrow> Inl FetchTypeError
                 | Some b \<Rightarrow> Inr \<lparr>blob = b, url = createObjectURL env b,
                                   width = targetWidth, height = Math_round totalHeight\<rparr>) \<and>
            stitchImages env uploadedImages
              = stitchImages (env\<lparr>window_piexif := None\<rparr>) uploadedImages) \<and>
         (stitchImages env uploadedImages
            \<noteq> stitchImages (env\<lparr>window_piexif := None\<rparr>) uploadedImages
          \<longrightarrow>
            (\<exists>d px obj bytes v.
               readAsDataURL env (image_file (uploadedImages ! 0)) = Some d \<and>
               window_piexif env = Some px \<and>
               piexif_load px d = Inr obj \<and> typeof obj = ''object'' \<and>
               piexif_dump px obj = Inr bytes \<and>
               piexif_insert px bytes (toDataURL env canvas ''image/jpeg'' (Num 1)) = Inr v \<and>
               stitchImages env uploadedImages
                 = (case fetchBlob env v of
                      None \<Rightarrow> Inl FetchTypeError
                    | Some b \<Rightarrow> Inr \<lparr>blob = b, url = createObjectURL env b,
                                      width = targetWidth,
                                      height = Math_round totalHeight\<rparr>)))"
proof -
  let ?s = "toDataURL env canvas ''image/jpeg'' (Num 1)"
  let ?f = "image_file (uploadedImages ! 0)"
  let ?env' = "env\<lparr>window_piexif := None\<rparr>"
  let ?end = "\<lambda>v. case fetchBlob env v of
                  None \<Rightarrow> Inl FetchTypeError
                | Some b \<Rightarrow> Inr \<lparr>blob = b, url = createObjectURL env b,
                                  width = targetWidth, height = Math_round totalHeight\<rparr>"
  have run: "stitchImages env uploadedImages = ?end (handleExif env ?s ?f)"
    by (simp add: stitchImages_def assms)
  have "stitchCanvas ?env' uploadedImages = stitchCanvas env uploadedImages"
    by (rule stitchCanvas_same_browser) simp_all
  moreover have "handleExif ?env' ?s ?f = JSString ?s"
    by (rule handleExif_no_library) simp
  ultimately have bare: "stitchImages ?env' uploadedImages = ?end (JSString ?s)"
    by (simp add: stitchImages_def assms split: option.splits)
  have absorbed: "handleExif env ?s ?f = JSString ?s \<and>
                  stitchImages env uploadedImages = ?end (JSString ?s) \<and>
                  stitchImages env uploadedImages = stitchImages ?env' uploadedImages"
    if "exifFailure env ?s ?f"
  proof -
    from that have "handleExif env ?s ?f = JSString ?s"
      by (rule handleExif_failure)
    with run bare show ?thesis by simp
  qed
  have inserted: "\<exists>d px obj bytes v.
               readAsDataURL env ?f = Some d \<and> window_piexif env = Some px \<and>
               piexif_load px d = Inr obj \<and> typeof obj = ''object'' \<and>
               piexif_dump px obj = Inr bytes \<and> piexif_insert px bytes ?s = Inr v \<and>
               stitchImages env uploadedImages = ?end v"
    if "stitchImages env uploadedImages \<noteq> stitchImages ?env' uploadedImages"
  proof -
    from that run bare have "handleExif env ?s ?f \<noteq> JSString ?s"
      by auto
    from handleExif_changed [OF this] obtain d px obj bytes v
      where "readAsDataURL env ?f = Some d" "window_piexif env = Some px"
        "piexif_load px d = Inr obj" "typeof obj = ''object''"
        "piexif_dump px obj = Inr bytes" "piexif_insert px bytes ?s = Inr v"
        "handleExif env ?s ?f = v"
      by blast
    with run show ?thesis by auto
  qed
  from absorbed inserted show ?thesis by blast
qed

theorem C3_exif_failure_is_absorbed_witness:
  "stitchCanvas demo_browser_throwing [demo_small]
     = Inr (Num 3, Num 1,
            \<lparr>canvas_width = 3, canvas_height = 1, fillStyle = ''#FFFFFF'',
             painted = [FillRect ''#FFFFFF'' (Num 0) (Num 0) (Num 3) (Num 1),
                        DrawImage \<lparr>naturalWidth = 3, naturalHeight = 1, bitmap = []\<rparr>
                          (Num 0) (Num 0) (Num 3) (Num 1)]\<rparr>)
   \<and> exifFailure demo_browser_throwing ''data:image/jpeg;pp'' [0, 3, 0, 1]
   \<and> stitchImages demo_browser_throwing [demo_small]
     = Inr \<lparr>blob = [100, 97, 116, 97, 58, 105, 109, 97, 103, 101, 47, 106, 112, 101, 103,
                    59, 112, 112],
            url = ''blob:2'', width = Num 3, height = Num 1\<rparr>
   \<and> stitchImages demo_browser_throwing [demo_small]
     = stitchImages (demo_browser_throwing\<lparr>window_piexif := None\<rparr>) [demo_small]
   \<and> stitchImages demo_browser_bad_insert [demo_small]
     \<noteq> stitchImages (demo_browser_bad_insert\<lparr>window_piexif := None\<rparr>) [demo_small]
   \<and> (\<exists>d px obj bytes v.
         readAsDataURL demo_browser_bad_insert [0, 3, 0, 1] = Some d \<and>
         window_piexif demo_browser_bad_insert = Some px \<and>
         piexif_load px d = Inr obj \<and> typeof obj = ''object'' \<and>
         piexif_dump px obj = Inr bytes \<and>
         piexif_insert px bytes ''data:image/jpeg;pp'' = Inr v \<and>
         fetchBlob demo_browser_bad_insert v = None \<and>
         stitchImages demo_browser_bad_insert [demo_small] = Inl FetchTypeError)"
proof -
  let ?c = "\<lparr>canvas_width = 3, canvas_height = 1, fillStyle = ''#FFFFFF'',
             painted = [FillRect ''#FFFFFF'' (Num 0) (Num 0) (Num 3) (Num 1),
                        DrawImage \<lparr>naturalWidth = 3, naturalHeight = 1, bitmap = []\<rparr>
                          (Num 0) (Num 0) (Num 3) (Num 1)]\<rparr>"
  have canvas: "stitchCanvas demo_browser_throwing [demo_small] = Inr (Num 3, Num 1, ?c)"
    by code_simp
  have url: "toDataURL demo_browser_throwing ?c ''image/jpeg'' (Num 1) = ''data:image/jpeg;pp''"
    by code_simp
  have first: "image_file ([demo_small] ! 0) = [0, 3, 0, 1]"
    by code_simp
  have fails: "exifFailure demo_browser_throwing ''data:image/jpeg;pp'' [0, 3, 0, 1]"
    by code_simp
  have fetched: "fetchBlob demo_browser_throwing (JSString ''data:image/jpeg;pp'')
      = Some [100, 97, 116, 97, 58, 105, 109, 97, 103, 101, 47, 106, 112, 101, 103, 59, 112, 112]"
    by code_simp
  have made: "createObjectURL demo_browser_throwing
      [100, 97, 116, 97, 58, 105, 109, 97, 103, 101, 47, 106, 112, 101, 103, 59, 112, 112]
      = ''blob:2''"
    by code_simp
  have round: "Math_round (Num 1) = Num 1"
    by code_simp
  from fails have fails': "exifFailure demo_browser_throwing
      (toDataURL demo_browser_throwing ?c ''image/jpeg'' (Num 1))
      (image_file ([demo_small] ! 0))"
    by (simp only: url first)
  note absorbed = C3_exif_failure_is_absorbed [OF canvas, THEN conjunct1, rule_format, OF fails']
  from absorbed have result: "stitchImages demo_browser_throwing [demo_small]
     = Inr \<lparr>blob = [100, 97, 116, 97, 58, 105, 109, 97, 103, 101, 47, 106, 112, 101, 103,
                    59, 112, 112],
            url = ''blob:2'', width = Num 3, height = Num 1\<rparr>"
    by (simp only: url fetched made round option.case)
  from absorbed have bare: "stitchImages demo_browser_throwing [demo_small]
     = stitchImages (demo_browser_throwing\<lparr>window_piexif := None\<rparr>) [demo_small]"
    by blast
  have canvas2: "stitchCanvas demo_browser_bad_insert [demo_small] = Inr (Num 3, Num 1, ?c)"
    by code_simp
  have url2: "toDataURL demo_browser_bad_insert ?c ''image/jpeg'' (Num 1) = ''data:image/jpeg;pp''"
    by code_simp
  have rejected: "stitchImages demo_browser_bad_insert [demo_small] = Inl FetchTypeError"
    by code_simp
  have differs: "stitchImages demo_browser_bad_insert [demo_small]
     \<noteq> stitchImages (demo_browser_bad_insert\<lparr>window_piexif := None\<rparr>) [demo_small]"
    by code_simp
  from C3_exif_failure_is_absorbed [OF canvas2, THEN conjunct2, rule_format, OF differs]
  obtain d px obj bytes v where
    parts: "readAsDataURL demo_browser_bad_insert (image_file ([demo_small] ! 0)) = Some d"
      "window_piexif demo_browser_bad_insert = Some px"
      "piexif_load px d = Inr obj" "typeof obj = ''object''"
      "piexif_dump px obj = Inr bytes"
      "piexif_insert px bytes (toDataURL demo_browser_bad_insert ?c ''image/jpeg'' (Num 1)) = Inr v"
    and outcome: "stitchImages demo_browser_bad_insert [demo_small]
                 = (case fetchBlob demo_browser_bad_insert v of
                      None \<Rightarrow> Inl FetchTypeError
                    | Some b \<Rightarrow> Inr \<lparr>blob = b, url = createObjectURL demo_browser_bad_insert b,
                                      width = Num 3, height = Math_round (Num 1)\<rparr>)"
    by blast
  from outcome rejected have "fetchBlob demo_browser_bad_insert v = None"
    by (cases "fetchBlob demo_browser_bad_insert v") simp_all
  with parts rejected have "\<exists>d px obj bytes v.
         readAsDataURL demo_browser_bad_insert [0, 3, 0, 1] = Some d \<and>
         window_piexif demo_browser_bad_insert = Some px \<and>
         piexif_load px d = Inr obj \<and> typeof obj = ''object'' \<and>
         piexif_dump px obj = Inr bytes \<and>
         piexif_insert px bytes ''data:image/jpeg;pp'' = Inr v \<and>
         fetchBlob demo_browser_bad_insert v = None \<and>
         stitchImages demo_browser_bad_insert [demo_small] = Inl FetchTypeError"
    unfolding url2 first by blast
  with canvas fails result bare differs show ?thesis by blast
qed

text \<open>
  C4. Stitching an empty list is rejected with the error "No images to stitch", in every
  browser: nothing is decoded and no result is produced.
\<close>

theorem C4_empty_input: "stitchImages env [] = Inl (Error ''No images to stitch'')"
  by (simp add: stitchImages_def stitchCanvas_def)

text \<open>
  C5. An empty or absent metadata block of the first file should leave the stitched data
  URL unchanged, with nothing serialised or inserted. The code does not do this for an
  empty tag set: the guard of the EXIF step is \<open>typeof exifObj === 'object'\<close>, which
  holds for an object with no tags (and for \<open>null\<close>). With a library that loads the empty
  tag sets of a file without EXIF, as piexifjs does, the segment is serialised and put
  into the data URL, and the blob of the result differs from the one without the library.
\<close>

theorem C5_empty_exif_is_inserted:
  "piexif_load demo_piexif ''data:image/jpeg'' = Inr emptyExif
   \<and> handleExif demo_browser_exif ''data:image/jpeg;pp'' [0, 3, 0, 1]
       = JSString ''data:image/jpeg;pp;Exif''
   \<and> stitchImages demo_browser [demo_small]
     = Inr \<lparr>blob = [100, 97, 116, 97, 58, 105, 109, 97, 103, 101, 47, 106, 112, 101, 103,
                    59, 112, 112],
            url = ''blob:1'', width = Num 3, height = Num 1\<rparr>
   \<and> stitchImages demo_browser_exif [demo_small]
     = Inr \<lparr>blob = [100, 97, 116, 97, 58, 105, 109, 97, 103, 101, 47, 106, 112, 101, 103,
                    59, 112, 112, 59, 69, 120, 105, 102],
            url = ''blob:1'', width = Num 3, height = Num 1\<rparr>"
  by code_simp

text \<open>
  C6. The claim as stated fails: the service has no pixel budget. In the concrete
  browser an image of 60000 by 60000 is stitched onto a canvas of 3600000000 pixels and
  a result is returned.
\<close>

theorem C6_counterexample:
  "stitchCanvas demo_browser [demo_huge]
     = Inr (Num 60000, Num 60000,
            \<lparr>canvas_width = 60000, canvas_height = 60000, fillStyle = ''#FFFFFF'',
             painted = [FillRect ''#FFFFFF'' (Num 0) (Num 0) (Num 60000) (Num 60000),
                        DrawImage \<lparr>naturalWidth = 60000, naturalHeight = 60000, bitmap = []\<rparr>
                          (Num 0) (Num 0) (Num 60000) (Num 60000)]\<rparr>)
   \<and> stitchImages demo_browser [demo_huge]
     = Inr \<lparr>blob = [100, 97, 116, 97, 58, 105, 109, 97, 103, 101, 47, 106, 112, 101, 103,
                    59, 112, 112],
            url = ''blob:1'', width = Num 60000, height = Num 60000\<rparr>"
  by code_simp

text \<open>
  C6, as amended. The compositing step checks no area: it fails only when the browser
  gives no 2D context, with the error "Could not get canvas context"; otherwise it
  returns the canvas of the requested size, whatever that size is. Steps 1 to 4 together
  fail only with that error, with "No images to stitch" or with the error event of an
  image.
\<close>

theorem C6_no_pixel_budget:
  "(getContext2d env (toCanvasSize env targetWidth) (toCanvasSize env totalHeight)
      \<longrightarrow> (\<exists>canvas. paintCanvas env targetWidth totalHeight ds = Inr canvas \<and>
                    canvas_width canvas = toCanvasSize env targetWidth \<and>
                    canvas_height canvas = toCanvasSize env totalHeight)) \<and>
   (\<not> getContext2d env (toCanvasSize env targetWidth) (toCanvasSize env totalHeight)
      \<longrightarrow> paintCanvas env targetWidth totalHeight ds
            = Inl (Error ''Could not get canvas context'')) \<and>
   (\<forall>e. stitchCanvas env uploadedImages = Inl e
      \<longrightarrow> e = Error ''No images to stitch'' \<or> e = ErrorEvent \<or>
          e = Error ''Could not get canvas context'')"
proof -
  have "e = Error ''No images to stitch'' \<or> e = ErrorEvent \<or>
        e = Error ''Could not get canvas context''"
    if failed: "stitchCanvas env uploadedImages = Inl e" for e
  proof (cases "uploadedImages = []")
    case True
    with failed show ?thesis by (simp add: stitchCanvas_def)
  next
    case False
    show ?thesis
    proof (cases "Promise_all (map (\<lambda>u. loadImage env (image_file u)) uploadedImages)")
      case (Inl e')
      have "e' = ErrorEvent" if "Promise_all ps = Inl e'"
        and "\<forall>p\<in>set ps. p \<noteq> Inl e' \<or> e' = ErrorEvent" for ps
        using that
      proof (induction ps)
        case Nil
        then show ?case by simp
      next
        case (Cons p ps)
        then show ?case by (cases p) (auto split: sum.splits)
      qed
      moreover have "\<forall>p\<in>set (map (\<lambda>u. loadImage env (image_file u)) uploadedImages).
                       p \<noteq> Inl e' \<or> e' = ErrorEvent"
        by (auto simp: loadImage_def split: option.splits)
      ultimately have "e' = ErrorEvent" using Inl by blast
      with failed False Inl show ?thesis by (simp add: stitchCanvas_def)
    next
      case (Inr imgs)
      with failed False show ?thesis
        by (auto simp: stitchCanvas_def Let_def paintCanvas_cases split: sum.splits if_splits)
    qed
  qed
  then show ?thesis
    by (simp add: paintCanvas_cases drawImages_size)
qed

theorem C6_no_pixel_budget_witness:
  "getContext2d demo_browser (toCanvasSize demo_browser (Num 60000))
     (toCanvasSize demo_browser (Num 60000))
   \<and> (\<exists>canvas. paintCanvas demo_browser (Num 60000) (Num 60000) [] = Inr canvas \<and>
                canvas_width canvas = 60000 \<and> canvas_height canvas = 60000)
   \<and> \<not> getContext2d (demo_browser\<lparr>getContext2d := \<lambda>w h. False\<rparr>)
          (toCanvasSize (demo_browser\<lparr>getContext2d := \<lambda>w h. False\<rparr>) (Num 3))
          (toCanvasSize (demo_browser\<lparr>getContext2d := \<lambda>w h. False\<rparr>) (Num 1))
   \<and> stitchCanvas (demo_browser\<lparr>getContext2d := \<lambda>w h. False\<rparr>) [demo_small]
       = Inl (Error ''Could not get canvas context'')"
proof -
  let ?dark = "demo_browser\<lparr>getContext2d := \<lambda>w h. False\<rparr>"
  have ctx: "getContext2d demo_browser (toCanvasSize demo_browser (Num 60000))
     (toCanvasSize demo_browser (Num 60000))"
    by code_simp
  have size: "toCanvasSize demo_browser (Num 60000) = 60000"
    by code_simp
  have none: "\<not> getContext2d ?dark (toCanvasSize ?dark (Num 3)) (toCanvasSize ?dark (Num 1))"
    by simp
  have failed: "stitchCanvas ?dark [demo_small] = Inl (Error ''Could not get canvas context'')"
    by code_simp
  from C6_no_pixel_budget [of demo_browser "Num 60000" "Num 60000" "[]" "[]"] ctx size
  have "\<exists>canvas. paintCanvas demo_browser (Num 60000) (Num 60000) [] = Inr canvas \<and>
                canvas_width canvas = 60000 \<and> canvas_height canvas = 60000"
    by simp
  with ctx none failed show ?thesis by blast
qed

text \<open>
  C7. The claim as stated fails: step 2 checks no width. In the concrete browser a file
  that decodes to an image of width 0 is stitched after an image of 3 by 1: the division
  \<open>3 / 0\<close> is evaluated, the scale factor is \<open>Infinity\<close>, and a result of height
  \<open>Infinity\<close> is returned.
\<close>

theorem C7_counterexample:
  "decodeImage demo_browser (image_file demo_zero_width)
     = Some \<lparr>naturalWidth = 0, naturalHeight = 5, bitmap = []\<rparr>
   \<and> scaleFactor (drawDatum (Num 3) \<lparr>naturalWidth = 0, naturalHeight = 5, bitmap = []\<rparr>)
       = PosInf
   \<and> stitchImages demo_browser [demo_small, demo_zero_width]
     = Inr \<lparr>blob = [100, 97, 116, 97, 58, 105, 109, 97, 103, 101, 47, 106, 112, 101, 103,
                    59, 112, 112, 112],
            url = ''blob:1'', width = Num 3, height = PosInf\<rparr>"
  by code_simp

text \<open>
  C7, as amended. Step 2 performs no check of the widths. The divisor of an image's scale
  factor is its natural width: when that is not 0 the scale factor is a finite number,
  and when it is 0 the scale factor is \<open>Infinity\<close>, or \<open>NaN\<close> if the target width is 0 as
  well; in both cases the step goes on.
\<close>

theorem C7_zero_width_not_checked:
  "(naturalWidth i \<noteq> 0 \<longrightarrow> (\<exists>q. scaleFactor (drawDatum (ulong_num t) i) = Num q)) \<and>
   (naturalWidth i = 0 \<longrightarrow>
      scaleFactor (drawDatum (ulong_num t) i) = (if t = 0 then NaN else PosInf))"
proof -
  let ?a = "of_int (uint t) :: rat" and ?b = "of_int (uint (naturalWidth i)) :: rat"
  have sf: "scaleFactor (drawDatum (ulong_num t) i) = js_div (Num ?a) (Num ?b)"
    by (simp add: drawDatum_def Let_def ulong_num_def)
  have a: "0 \<le> ?a" "?a < 2 ^ 32"
    using ulong_bounds [of t] by simp_all
  have "\<exists>q. scaleFactor (drawDatum (ulong_num t) i) = Num q" if "naturalWidth i \<noteq> 0"
  proof -
    from that have "uint (naturalWidth i) \<noteq> 0"
      by (simp add: uint_0_iff)
    moreover have "0 \<le> uint (naturalWidth i)" by simp
    ultimately have "1 \<le> uint (naturalWidth i)" by linarith
    then have b: "1 \<le> ?b" by (simp only: of_int_1_le_iff)
    have "?a / ?b \<le> ?a"
      using b a(1) by (simp add: divide_le_eq mult_le_cancel_left1)
    moreover have "0 \<le> ?a / ?b" using a(1) b by simp
    ultimately have "\<bar>?a / ?b\<bar> < 2 ^ 32" using a(2) by simp
    also have "(2::rat) ^ 32 \<le> 2 ^ 1023"
      by (rule power_increasing) simp_all
    finally obtain q where "fl (?a / ?b) = Num q"
      using fl_finite by blast
    with b show ?thesis by (auto simp: sf)
  qed
  moreover have "scaleFactor (drawDatum (ulong_num t) i) = (if t = 0 then NaN else PosInf)"
    if "naturalWidth i = 0"
  proof (cases "t = 0")
    case True
    show ?thesis unfolding sf using that True by simp
  next
    case False
    then have "uint t \<noteq> 0" by (simp add: uint_0_iff)
    moreover have "0 \<le> uint t" by simp
    ultimately have "0 < uint t" by linarith
    then have "0 < ?a" by (simp only: of_int_0_less_iff)
    then show ?thesis unfolding sf using that False by simp
  qed
  ultimately show ?thesis by blast
qed

theorem C7_zero_width_not_checked_witness:
  "naturalWidth \<lparr>naturalWidth = 22, naturalHeight = 99, bitmap = []\<rparr> \<noteq> 0
   \<and> (\<exists>q. scaleFactor (drawDatum (ulong_num 3)
                          \<lparr>naturalWidth = 22, naturalHeight = 99, bitmap = []\<rparr>) = Num q)
   \<and> naturalWidth \<lparr>naturalWidth = 0, naturalHeight = 5, bitmap = []\<rparr> = 0
   \<and> scaleFactor (drawDatum (ulong_num 3) \<lparr>naturalWidth = 0, naturalHeight = 5, bitmap = []\<rparr>)
       = PosInf
   \<and> scaleFactor (drawDatum (ulong_num 0) \<lparr>naturalWidth = 0, naturalHeight = 5, bitmap = []\<rparr>)
       = NaN"
  using C7_zero_width_not_checked
          [of "\<lparr>naturalWidth = 22, naturalHeight = 99, bitmap = []\<rparr>" 3]
        C7_zero_width_not_checked
          [of "\<lparr>naturalWidth = 0, naturalHeight = 5, bitmap = []\<rparr>" 3]
        C7_zero_width_not_checked
          [of "\<lparr>naturalWidth = 0, naturalHeight = 5, bitmap = []\<rparr>" 0]
  by simp

text \<open>
  C8. When steps 1 to 4 succeed, what the canvas has painted is, first, a rectangle in
  \<open>#FFFFFF\<close> from the origin over the canvas's own width and height, and then one
  \<open>drawImage\<close> for each decoded image, in the order of the list: the whole image, at
  \<open>x = 0\<close>, scaled to the target width and its scaled height, at the vertical offset that
  is the running sum (as the loop adds it, in binary64) of the scaled heights before it.
\<close>

theorem C8_white_then_images_in_order:
  assumes "stitchCanvas env uploadedImages = Inr (targetWidth, totalHeight, canvas)"
  shows "\<exists>imgs. map (\<lambda>u. decodeImage env (image_file u)) uploadedImages = map Some imgs \<and>
           imgs \<noteq> [] \<and>
           painted canvas =
             FillRect ''#FFFFFF'' (Num 0) (Num 0)
               (ulong_num (canvas_width canvas)) (ulong_num (canvas_height canvas)) #
             map (\<lambda>k. DrawImage (imgs ! k) (Num 0)
                         (foldl js_add (Num 0)
                            (map (\<lambda>i. scaledHeight (drawDatum targetWidth i)) (take k imgs)))
                         targetWidth
                         (scaledHeight (drawDatum targetWidth (imgs ! k))))
               [0..<length imgs]"
proof -
  from stitchCanvas_InrD [OF assms] obtain imgs
    where ne: "uploadedImages \<noteq> []"
      and dec: "map (\<lambda>u. decodeImage env (image_file u)) uploadedImages = map Some imgs"
      and paint: "paintCanvas env targetWidth totalHeight (imageDrawData targetWidth imgs)
                    = Inr canvas"
    by blast
  let ?ds = "imageDrawData targetWidth imgs"
  let ?c0 = "\<lparr>canvas_width = toCanvasSize env targetWidth,
              canvas_height = toCanvasSize env totalHeight,
              fillStyle = ''#FFFFFF'',
              painted = [FillRect ''#FFFFFF'' (Num 0) (Num 0)
                           (ulong_num (toCanvasSize env targetWidth))
                           (ulong_num (toCanvasSize env totalHeight))]\<rparr>"
  from paint have canvas: "canvas = drawImages targetWidth ?c0 (Num 0) ?ds"
    by (simp add: paintCanvas_cases split: if_splits)
  have size: "canvas_width canvas = toCanvasSize env targetWidth"
    "canvas_height canvas = toCanvasSize env totalHeight"
    by (simp_all add: canvas drawImages_size)
  have len: "length ?ds = length imgs"
    by (simp add: imageDrawData_def)
  have each: "DrawImage (img (?ds ! k)) (Num 0)
                (foldl js_add (Num 0) (map scaledHeight (take k ?ds)))
                targetWidth (scaledHeight (?ds ! k))
            = DrawImage (imgs ! k) (Num 0)
                (foldl js_add (Num 0)
                   (map (\<lambda>i. scaledHeight (drawDatum targetWidth i)) (take k imgs)))
                targetWidth (scaledHeight (drawDatum targetWidth (imgs ! k)))"
    if "k < length imgs" for k
  proof -
    from that have "?ds ! k = drawDatum targetWidth (imgs ! k)"
      by (simp add: imageDrawData_def)
    moreover have "img (drawDatum targetWidth (imgs ! k)) = imgs ! k"
      by (simp add: drawDatum_def Let_def)
    moreover have "map scaledHeight (take k ?ds)
                     = map (\<lambda>i. scaledHeight (drawDatum targetWidth i)) (take k imgs)"
      by (simp add: imageDrawData_def take_map)
    ultimately show ?thesis by simp
  qed
  have "painted canvas
          = painted ?c0 @
            map (\<lambda>k. DrawImage (img (?ds ! k)) (Num 0)
                        (foldl js_add (Num 0) (map scaledHeight (take k ?ds)))
                        targetWidth (scaledHeight (?ds ! k)))
              [0..<length ?ds]"
    unfolding canvas by (rule drawImages_painted)
  also have "map (\<lambda>k. DrawImage (img (?ds ! k)) (Num 0)
                        (foldl js_add (Num 0) (map scaledHeight (take k ?ds)))
                        targetWidth (scaledHeight (?ds ! k)))
              [0..<length ?ds]
           = map (\<lambda>k. DrawImage (imgs ! k) (Num 0)
                        (foldl js_add (Num 0)
                           (map (\<lambda>i. scaledHeight (drawDatum targetWidth i)) (take k imgs)))
                        targetWidth (scaledHeight (drawDatum targetWidth (imgs ! k))))
              [0..<length imgs]"
    unfolding len by (rule map_cong) (simp_all add: each)
  finally have "painted canvas =
             FillRect ''#FFFFFF'' (Num 0) (Num 0)
               (ulong_num (canvas_width canvas)) (ulong_num (canvas_height canvas)) #
             map (\<lambda>k. DrawImage (imgs ! k) (Num 0)
                         (foldl js_add (Num 0)
                            (map (\<lambda>i. scaledHeight (drawDatum targetWidth i)) (take k imgs)))
                         targetWidth
                         (scaledHeight (drawDatum targetWidth (imgs ! k))))
               [0..<length imgs]"
    by (simp add: size)
  moreover from dec ne have "imgs \<noteq> []"
    by auto
  ultimately show ?thesis using dec by blast
qed

theorem C8_white_then_images_in_order_witness:
  "stitchCanvas demo_browser [demo_small, demo_tall]
     = Inr (Num 3, Num (8162774324609023 / 562949953421312),
            \<lparr>canvas_width = 3, canvas_height = 14, fillStyle = ''#FFFFFF'',
             painted =
               [FillRect ''#FFFFFF'' (Num 0) (Num 0) (Num 3) (Num 14),
                DrawImage \<lparr>naturalWidth = 3, naturalHeight = 1, bitmap = []\<rparr>
                  (Num 0) (Num 0) (Num 3) (Num 1),
                DrawImage \<lparr>naturalWidth = 22, naturalHeight = 99, bitmap = []\<rparr>
                  (Num 0) (Num 1) (Num 3) (Num (7599824371187711 / 562949953421312))]\<rparr>)
   \<and> (\<exists>imgs. map (\<lambda>u. decodeImage demo_browser (image_file u)) [demo_small, demo_tall]
               = map Some imgs \<and>
             imgs \<noteq> [] \<and>
             [FillRect ''#FFFFFF'' (Num 0) (Num 0) (Num 3) (Num 14),
              DrawImage \<lparr>naturalWidth = 3, naturalHeight = 1, bitmap = []\<rparr>
                (Num 0) (Num 0) (Num 3) (Num 1),
              DrawImage \<lparr>naturalWidth = 22, naturalHeight = 99, bitmap = []\<rparr>
                (Num 0) (Num 1) (Num 3) (Num (7599824371187711 / 562949953421312))]
             = FillRect ''#FFFFFF'' (Num 0) (Num 0) (ulong_num 3) (ulong_num 14) #
               map (\<lambda>k. DrawImage (imgs ! k) (Num 0)
                           (foldl js_add (Num 0)
                              (map (\<lambda>i. scaledHeight (drawDatum (Num 3) i)) (take k imgs)))
                           (Num 3)
                           (scaledHeight (drawDatum (Num 3) (imgs ! k))))
                 [0..<length imgs])"
proof -
  have canvas: "stitchCanvas demo_browser [demo_small, demo_tall]
     = Inr (Num 3, Num (8162774324609023 / 562949953421312),
            \<lparr>canvas_width = 3, canvas_height = 14, fillStyle = ''#FFFFFF'',
             painted =
               [FillRect ''#FFFFFF'' (Num 0) (Num 0) (Num 3) (Num 14),
                DrawImage \<lparr>naturalWidth = 3, naturalHeight = 1, bitmap = []\<rparr>
                  (Num 0) (Num 0) (Num 3) (Num 1),
                DrawImage \<lparr>naturalWidth = 22, naturalHeight = 99, bitmap = []\<rparr>
                  (Num 0) (Num 1) (Num 3) (Num (7599824371187711 / 562949953421312))]\<rparr>)"
    by code_simp
  from C8_white_then_images_in_order [OF canvas] canvas show ?thesis
    by simp
qed



text \<open>
  C10. The result of stitching depends on the list only through the files of its
  elements, in order: the ids, preview URLs, widths and heights of the elements have no
  influence on the canvas, the blob, the width or the height.
\<close>

theorem C10_only_files_matter:
  assumes "map image_file uploadedImages = map image_file uploadedImages'"
  shows "stitchCanvas env uploadedImages = stitchCanvas env uploadedImages' \<and>
         stitchImages env uploadedImages = stitchImages env uploadedImages'"
proof -
  have canvas: "stitchCanvas env uploadedImages = stitchCanvas env uploadedImages'"
    using assms by (rule stitchCanvas_cong_files)
  have "image_file (uploadedImages ! 0) = image_file (uploadedImages' ! 0)"
    if "uploadedImages \<noteq> []"
  proof -
    from assms have "length uploadedImages = length uploadedImages'"
      by (rule map_eq_imp_length_eq)
    with that have "0 < length uploadedImages" "0 < length uploadedImages'"
      by auto
    then have "image_file (uploadedImages ! 0) = map image_file uploadedImages ! 0"
      and "image_file (uploadedImages' ! 0) = map image_file uploadedImages' ! 0"
      by simp_all
    with assms show ?thesis by simp
  qed
  moreover have "uploadedImages \<noteq> []" if "stitchCanvas env uploadedImages = Inr x" for x
    using that by (auto simp: stitchCanvas_def)
  ultimately have "stitchImages env uploadedImages = stitchImages env uploadedImages'"
    unfolding stitchImages_def canvas [symmetric]
    by (cases "stitchCanvas env uploadedImages") auto
  with canvas show ?thesis by simp
qed

theorem C10_only_files_matter_witness:
  "map image_file [demo_small, demo_tall]
     = map image_file
         [\<lparr>image_id = ''other'', image_file = [0, 3, 0, 1], previewUrl = ''blob:x'',
           image_width = Num 640, image_height = Num 480\<rparr>,
          \<lparr>image_id = ''n'', image_file = [0, 22, 0, 99], previewUrl = ''blob:y'',
           image_width = NaN, image_height = Num 7\<rparr>]
   \<and> stitchImages demo_browser [demo_small, demo_tall]
     = stitchImages demo_browser
         [\<lparr>image_id = ''other'', image_file = [0, 3, 0, 1], previewUrl = ''blob:x'',
           image_width = Num 640, image_height = Num 480\<rparr>,
          \<lparr>image_id = ''n'', image_file = [0, 22, 0, 99], previewUrl = ''blob:y'',
           image_width = NaN, image_height = Num 7\<rparr>]"
proof -
  have files: "map image_file [demo_small, demo_tall]
     = map image_file
         [\<lparr>image_id = ''other'', image_file = [0, 3, 0, 1], previewUrl = ''blob:x'',
           image_width = Num 640, image_height = Num 480\<rparr>,
          \<lparr>image_id = ''n'', image_file = [0, 22, 0, 99], previewUrl = ''blob:y'',
           image_width = NaN, image_height = Num 7\<rparr>]"
    by (simp add: demo_small_def demo_tall_def newImage_def)
  from C10_only_files_matter [OF files, of demo_browser] files show ?thesis
    by blast
qed

section \<open>An example with three images\<close>

text \<open>
  Images of 800 by 600, 400 by 400 and 1600 by 400, in this order: the target width is
  800, the scaled heights are 600, 800 and 200, the images are placed at 0, 600 and 1400,
  and the result is 800 by 1600.
\<close>

lemma three_images_example:
  "stitchCanvas demo_browser
     [newImage ''a'' ''blob:a'' [3, 32, 2, 88], newImage ''b'' ''blob:b'' [1, 144, 1, 144],
      newImage ''c'' ''blob:c'' [6, 64, 1, 144]]
     = Inr (Num 800, Num 1600,
            \<lparr>canvas_width = 800, canvas_height = 1600, fillStyle = ''#FFFFFF'',
             painted =
               [FillRect ''#FFFFFF'' (Num 0) (Num 0) (Num 800) (Num 1600),
                DrawImage \<lparr>naturalWidth = 800, naturalHeight = 600, bitmap = []\<rparr>
                  (Num 0) (Num 0) (Num 800) (Num 600),
                DrawImage \<lparr>naturalWidth = 400, naturalHeight = 400, bitmap = []\<rparr>
                  (Num 0) (Num 600) (Num 800) (Num 800),
                DrawImage \<lparr>naturalWidth = 1600, naturalHeight = 400, bitmap = []\<rparr>
                  (Num 0) (Num 1400) (Num 800) (Num 200)]\<rparr>)"
  by code_simp

end
